theory Spec2Isabelle
  imports Complex_Main
begin

section \<open>Array primitives used by the simulator\<close>

text \<open>
  The program computes on one-dimensional floating-point arrays of the numerical array
  library. An array is modelled as a list, and its entries as real numbers: every
  arithmetic operation is the exact one, so rounding, infinities and NaN are outside this
  development. HOL's \<open>x / 0 = 0\<close> is not what the library computes; every statement
  below that reads a quotient assumes its divisors are not zero.

  Python integers (\<open>nseg_per_branch\<close>, \<open>num_branches\<close>, indices) are \<open>int\<close>.
  The exceptions the library and the interpreter raise are values of \<open>error\<close>:
  \<open>ShapeError\<close> stands for the library's exception on shapes that do not fit in an
  operation on arrays.
\<close>

datatype error = ShapeError | IndexError | ValueError | ZeroDivisionError | TypeError

type_synonym vec = "real list"
type_synonym mat = "real list list"

text \<open>Sequencing of computations that may raise: the first exception is the result.\<close>

definition and_then :: "error + 'a \<Rightarrow> ('a \<Rightarrow> error + 'b) \<Rightarrow> error + 'b" where
  "and_then r f = (case r of Inl e \<Rightarrow> Inl e | Inr x \<Rightarrow> f x)"

text \<open>
  The scatter of one entry: a new array, equal to \<open>x\<close> but at position \<open>i\<close>. A
  negative index counts from the end; an index that is still out of range after that is
  dropped (the library's default scatter mode), so the array comes back unchanged. The
  library first reduces an index to 32 bits; this is not modelled, and an index is taken
  to lie in the 32-bit range.
\<close>

definition at_set :: "'a list \<Rightarrow> int \<Rightarrow> 'a \<Rightarrow> 'a list" where
  "at_set x i v =
     (let n = int (length x); j = (if i < 0 then i + n else i)
      in if 0 \<le> j \<and> j < n then x[nat j := v] else x)"

text \<open>
  \<open>x.at[i].set(v)\<close> with a single integer as index (a Python integer, or the counter
  of the loop): the library refuses an integer index into an axis of size 0, and
  scatters otherwise.
\<close>

definition at_index_set :: "'a list \<Rightarrow> int \<Rightarrow> 'a \<Rightarrow> error + 'a list" where
  "at_index_set x i v = (if x = [] then Inl IndexError else Inr (at_set x i v))"

text \<open>
  \<open>x.at[idx].set(vals)\<close> with an array of indices: \<open>vals\<close> has the shape of
  \<open>idx\<close>, or a single entry that is broadcast. The updates are applied one index
  at a time.
\<close>

definition at_set_many :: "'a list \<Rightarrow> int list \<Rightarrow> 'a list \<Rightarrow> error + 'a list" where
  "at_set_many x idx vals =
     (if length vals = length idx
      then Inr (foldl (\<lambda>a (i, v). at_set a i v) x (zip idx vals))
      else if length vals = 1
      then Inr (foldl (\<lambda>a i. at_set a i (hd vals)) x idx)
      else Inl ShapeError)"

text \<open>\<open>jnp.zeros_like(x)\<close>, \<open>jnp.ones(n)\<close>, \<open>jnp.zeros(n)\<close> and \<open>jnp.arange(n)\<close>
  (the same indices as \<open>range(n)\<close>).\<close>

definition zeros_like :: "vec \<Rightarrow> vec" where
  "zeros_like x = replicate (length x) 0"

definition jnp_ones :: "int \<Rightarrow> error + vec" where
  "jnp_ones n = (if n < 0 then Inl ValueError else Inr (replicate (nat n) 1))"

definition jnp_zeros :: "int \<Rightarrow> error + vec" where
  "jnp_zeros n = (if n < 0 then Inl ValueError else Inr (replicate (nat n) 0))"

definition py_range :: "int \<Rightarrow> int list" where
  "py_range n = map int [0..<nat n]"

text \<open>
  The slice \<open>x[l:u]\<close>: a negative bound counts from the end, and both bounds are
  clipped to the array; an empty or reversed range gives the empty array.
\<close>

definition py_slice :: "'a list \<Rightarrow> int \<Rightarrow> int \<Rightarrow> 'a list" where
  "py_slice x l u =
     (let n = int (length x);
          lo = (if l < 0 then max (l + n) 0 else min l n);
          hi = (if u < 0 then max (u + n) 0 else min u n)
      in take (nat (hi - lo)) (drop (nat lo) x))"

text \<open>The strided slice \<open>x[start::step]\<close> for \<open>start \<ge> 0\<close> and \<open>step > 0\<close>:
  the entries at \<open>start\<close>, \<open>start + step\<close>, ... below the length.\<close>

definition strided :: "'a list \<Rightarrow> nat \<Rightarrow> nat \<Rightarrow> 'a list" where
  "strided x start step =
     map (\<lambda>j. x ! (start + j * step)) [0..<(length x + step - 1 - start) div step]"

text \<open>
  Elementwise arithmetic. Two arrays combine when their lengths agree or one of them
  has a single entry, which is broadcast; otherwise the library raises. A scalar
  combines with every entry.
\<close>

definition broadcast2 :: "(real \<Rightarrow> real \<Rightarrow> real) \<Rightarrow> vec \<Rightarrow> vec \<Rightarrow> error + vec" where
  "broadcast2 f x y =
     (if length x = length y then Inr (map2 f x y)
      else if length x = 1 then Inr (map (f (hd x)) y)
      else if length y = 1 then Inr (map (\<lambda>a. f a (hd y)) x)
      else Inl ShapeError)"

definition vadd :: "vec \<Rightarrow> vec \<Rightarrow> error + vec" where
  "vadd x y = broadcast2 (+) x y"

definition vmul :: "vec \<Rightarrow> vec \<Rightarrow> error + vec" where
  "vmul x y = broadcast2 (*) x y"

definition smul :: "real \<Rightarrow> vec \<Rightarrow> vec" where
  "smul c x = map (\<lambda>a. c * a) x"

definition muls :: "vec \<Rightarrow> real \<Rightarrow> vec" where
  "muls x c = map (\<lambda>a. a * c) x"

definition sadd :: "real \<Rightarrow> vec \<Rightarrow> vec" where
  "sadd c x = map (\<lambda>a. c + a) x"

definition adds :: "vec \<Rightarrow> real \<Rightarrow> vec" where
  "adds x c = map (\<lambda>a. a + c) x"

definition vpow :: "vec \<Rightarrow> nat \<Rightarrow> vec" where
  "vpow x k = map (\<lambda>a. a ^ k) x"

text \<open>\<open>jnp.asarray\<close> of a list of arrays stacks them as the rows of a matrix; rows of
  different lengths are refused.\<close>

definition asarray :: "mat \<Rightarrow> error + mat" where
  "asarray rows =
     (if list_all (\<lambda>r. length r = length (hd rows)) rows then Inr rows else Inl ValueError)"

text \<open>\<open>jnp.concatenate\<close> of the rows of a matrix; it needs at least one row.\<close>

definition concatenate :: "mat \<Rightarrow> error + vec" where
  "concatenate rows = (if rows = [] then Inl ValueError else Inr (concat rows))"

text \<open>\<open>jnp.column_stack\<close> of four one-dimensional arrays makes them the columns of a
  matrix, so they must have one length; \<open>jnp.ravel\<close> reads the matrix row by row.\<close>

definition column_stack4 :: "vec \<Rightarrow> vec \<Rightarrow> vec \<Rightarrow> vec \<Rightarrow> error + mat" where
  "column_stack4 a b c d =
     (if length b = length a \<and> length c = length a \<and> length d = length a
      then Inr (map (\<lambda>i. [a ! i, b ! i, c ! i, d ! i]) [0..<length a])
      else Inl ShapeError)"

definition ravel :: "mat \<Rightarrow> vec" where
  "ravel m = concat m"

text \<open>The quotient of two Python floats: a divisor of zero raises.\<close>

definition py_div :: "real \<Rightarrow> real \<Rightarrow> error + real" where
  "py_div a b = (if b = 0 then Inl ZeroDivisionError else Inr (a / b))"

text \<open>\<open>x[0]\<close>: the library refuses to index an empty array.\<close>

definition index0 :: "vec \<Rightarrow> error + real" where
  "index0 x = (case x of [] \<Rightarrow> Inl IndexError | a # _ \<Rightarrow> Inr a)"

text \<open>
  \<open>lax.fori_loop(lower, upper, body, init_val)\<close>: the body runs for
  \<open>lower, lower + 1, ..., upper - 1\<close>, each time on the value the last run returned.
  The library does not call the Python body once per iteration: it traces the body
  once and runs the trace. What the body reads from Python variables while it is traced
  is fixed in the trace, and a later call with the same body and the same shapes reuses
  the trace. The function below is the run of a given body; which values the body of
  this program has read from the module's variables is decided in \<open>solve\<close>.
  The library requires the value the body returns to have the shapes of the value it
  was given, and raises \<open>TypeError\<close> otherwise; the first argument gives the shapes of
  a carried value.
\<close>

function fori_loop ::
  "('s \<Rightarrow> 'k) \<Rightarrow> int \<Rightarrow> int \<Rightarrow> (int \<Rightarrow> 's \<Rightarrow> error + 's) \<Rightarrow> 's \<Rightarrow> error + 's" where
  "fori_loop shape lower upper body init_val =
     (if lower < upper
      then (case body lower init_val of
              Inl e \<Rightarrow> Inl e
            | Inr val \<Rightarrow>
                if shape val = shape init_val
                then fori_loop shape (lower + 1) upper body val
                else Inl TypeError)
      else Inr init_val)"
  by pat_completeness auto
termination
  by (relation "measure (\<lambda>(shape, lower, upper, body, init_val). nat (upper - lower))") auto

declare fori_loop.simps [simp del]

section \<open>vectorfield.py\<close>

subsection \<open>The tridiagonal system of one branch\<close>

text \<open>The source's \<open>_define_tridiag_for_branch\<close>. Sums and products associate to the
  left, as Python evaluates them.\<close>

definition define_tridiag_for_branch ::
  "vec \<Rightarrow> vec \<Rightarrow> vec \<Rightarrow> vec \<Rightarrow> vec \<Rightarrow> real \<Rightarrow> vec \<Rightarrow> real \<Rightarrow> int
     \<Rightarrow> error + (vec \<times> vec \<times> vec \<times> vec)" where
  "define_tridiag_for_branch voltages na_conds kd_conds leak_conds i_ext dt num_neighbours
       coupling_conds nseg_per_branch =
     and_then (vadd na_conds kd_conds) (\<lambda>s1.
     and_then (vadd s1 leak_conds) (\<lambda>voltage_terms.
     and_then (vadd (smul 50.0 na_conds) (smul (- 90.0) kd_conds)) (\<lambda>c1.
     and_then (vadd c1 (smul (- 65.0) leak_conds)) (\<lambda>c2.
     and_then (vadd c2 i_ext) (\<lambda>constant_terms.
     and_then (vadd (sadd 1.0 (smul dt voltage_terms))
                    (muls (smul dt num_neighbours) coupling_conds)) (\<lambda>a_v.
     and_then (vadd voltages (smul dt constant_terms)) (\<lambda>b_v.
       let upper = replicate (nat (nseg_per_branch - 1)) (- dt * coupling_conds);
           lower = replicate (nat (nseg_per_branch - 1)) (- dt * coupling_conds)
       in Inr (lower, a_v, upper, b_v))))))))"

subsection \<open>All branches\<close>

text \<open>The loop \<open>for b in range(num_branches)\<close>, appending one system per branch to the
  four lists.\<close>

fun branch_loop ::
  "(int \<Rightarrow> error + (vec \<times> vec \<times> vec \<times> vec)) \<Rightarrow> int list \<Rightarrow> mat \<times> mat \<times> mat \<times> mat
     \<Rightarrow> error + (mat \<times> mat \<times> mat \<times> mat)" where
  "branch_loop body [] acc = Inr acc"
| "branch_loop body (b # bs) (lowers, diags, uppers, solves) =
     (case body b of
        Inl e \<Rightarrow> Inl e
      | Inr (lower, diag, upper, solve) \<Rightarrow>
          branch_loop body bs
            (lowers @ [lower], diags @ [diag], uppers @ [upper], solves @ [solve]))"

definition define_all_tridiags ::
  "vec \<Rightarrow> vec \<Rightarrow> vec \<Rightarrow> vec \<Rightarrow> vec \<Rightarrow> vec \<Rightarrow> int \<Rightarrow> int \<Rightarrow> real \<Rightarrow> real
     \<Rightarrow> error + (mat \<times> mat \<times> mat \<times> mat)" where
  "define_all_tridiags voltages na_conds kd_conds leak_conds i_ext num_neighbours
       nseg_per_branch num_branches dt coupling_conds =
     and_then
       (branch_loop
          (\<lambda>b. let l_ind = b * nseg_per_branch;
                    u_ind = (b + 1) * nseg_per_branch
                in define_tridiag_for_branch
                     (py_slice voltages l_ind u_ind)
                     (py_slice na_conds l_ind u_ind)
                     (py_slice kd_conds l_ind u_ind)
                     (py_slice leak_conds l_ind u_ind)
                     (py_slice i_ext l_ind u_ind)
                     dt
                     (py_slice num_neighbours l_ind u_ind)
                     coupling_conds
                     nseg_per_branch)
          (py_range num_branches) ([], [], [], []))
       (\<lambda>(lowers, diags, uppers, solves).
          and_then (asarray lowers) (\<lambda>lowers.
          and_then (asarray diags) (\<lambda>diags.
          and_then (asarray uppers) (\<lambda>uppers.
          and_then (asarray solves) (\<lambda>solves.
            Inr (lowers, diags, uppers, solves))))))"

subsection \<open>External stimulus\<close>

text \<open>
  The scalar arguments are Python floats, as the signature declares. The quotient is
  written as the source writes it, dividing four times from the left; it is computed
  before the conditional, so a radius or a length of zero raises at any time \<open>t\<close>.
  \<open>lax.cond(stim_, lambda x: x.at[nseg_per_branch - 1].set(current_in_comp),
  lambda x: x, zero_vec)\<close> traces both branches before it selects one, so the update
  of the first branch is computed, and can raise, whether the stimulus is on or not.
\<close>

definition get_external_input ::
  "vec \<Rightarrow> real \<Rightarrow> real \<Rightarrow> real \<Rightarrow> real \<Rightarrow> real \<Rightarrow> int \<Rightarrow> error + vec" where
  "get_external_input voltages t i_dur i_amp radius length_single_compartment nseg_per_branch =
     (let zero_vec = zeros_like voltages;
          stim_on = (t \<ge> 5.0);
          stim_off = (t \<le> 5.0 + i_dur);
          stim = (stim_on \<and> stim_off)
      in
      and_then (py_div (i_amp / 2 / pi) radius) (\<lambda>q.
      and_then (py_div q length_single_compartment) (\<lambda>current_in_comp.
      and_then (at_index_set zero_vec (nseg_per_branch - 1) current_in_comp) (\<lambda>updated.
        Inr (if stim then updated else zero_vec)))))"

subsection \<open>Number of neighbours\<close>

definition get_num_neighbours :: "vec \<Rightarrow> int \<Rightarrow> int \<Rightarrow> error + vec" where
  "get_num_neighbours num_kids nseg_per_branch num_branches =
     and_then (jnp_ones (num_branches * nseg_per_branch)) (\<lambda>ones.
       let num_neighbours = smul 2 ones in
       and_then (at_index_set num_neighbours (nseg_per_branch - 1) 1.0) (\<lambda>num_neighbours.
         at_set_many num_neighbours
           (map (\<lambda>b. b * nseg_per_branch) (py_range num_branches))
           (adds num_kids 1.0)))"

section \<open>integrate.py\<close>

subsection \<open>Data\<close>

text \<open>
  The morphology descriptor \<open>cell\<close> and the stimulus descriptor, with the attributes
  \<open>solve\<close> reads (the field \<open>cell_radius\<close> is the source's \<open>cell.radius\<close>, and so on).
\<close>

record cell =
  cell_num_branches :: int
  cell_nseg_per_branch :: int
  cell_radius :: real
  cell_length_single_compartment :: real
  cell_num_neighbours :: vec
  cell_coupling_conds :: real
  cell_branches_in_each_level :: "int list list"
  cell_parents :: "int list"

record stimulus =
  stim_i_delay :: real
  stim_i_amp :: real
  stim_i_dur :: real

text \<open>The two module-level variables, initially \<open>-1\<close>.\<close>

record globals =
  NUM_BRANCHES :: int
  NSEG_PER_BRANCH :: int

definition initial_globals :: globals where
  "initial_globals = \<lparr>NUM_BRANCHES = - 1, NSEG_PER_BRANCH = - 1\<rparr>"

text \<open>
  The state of the Python process that \<open>solve\<close> reads and leaves behind: the two
  globals, and the traces of the loop body that the library keeps. A trace is kept for
  the shapes of the values the loop carries (the lengths of \<open>u\<close>, \<open>params\<close> and
  \<open>num_neighbours\<close>, the lengths of the lists of \<open>branches_in_each_level\<close>, the
  length of \<open>parents\<close>; every other component is a scalar). The body reads the two
  globals while it is traced, so a trace is given by the values they had then.
\<close>

type_synonym shape_key = "nat \<times> nat \<times> nat \<times> nat list \<times> nat"

record process =
  module_globals :: globals
  trace_cache :: "shape_key \<Rightarrow> globals option"

definition fresh_process :: process where
  "fresh_process = \<lparr>module_globals = initial_globals, trace_cache = (\<lambda>key. None)\<rparr>"

text \<open>
  integrate.py imports seven functions from modules of the package that are not part of
  the sources at hand: \<open>solve_gate_implicit\<close>, \<open>m_gate\<close>, \<open>h_gate\<close>, \<open>n_gate\<close>
  (neurax.mechanisms), \<open>define_all_tridiags\<close> (neurax.build_branched_tridiag),
  \<open>solve_branched\<close> (neurax.implicit_euler) and \<open>get_external_input\<close>
  (neurax.stimulus, called with an \<open>i_delay\<close> argument). They are parameters of the
  model: any functions of these types, each of which may raise.
\<close>

record imported =
  imp_solve_gate_implicit :: "vec \<Rightarrow> real \<Rightarrow> vec \<Rightarrow> vec \<Rightarrow> error + vec"
  imp_m_gate :: "vec \<Rightarrow> error + (vec \<times> vec)"
  imp_h_gate :: "vec \<Rightarrow> error + (vec \<times> vec)"
  imp_n_gate :: "vec \<Rightarrow> error + (vec \<times> vec)"
  imp_define_all_tridiags ::
    "vec \<Rightarrow> vec \<Rightarrow> vec \<Rightarrow> vec \<Rightarrow> vec \<Rightarrow> vec \<Rightarrow> int \<Rightarrow> int \<Rightarrow> real \<Rightarrow> real
       \<Rightarrow> error + (mat \<times> mat \<times> mat \<times> mat)"
  imp_solve_branched ::
    "int list list \<Rightarrow> int list \<Rightarrow> mat \<Rightarrow> mat \<Rightarrow> mat \<Rightarrow> mat \<Rightarrow> real \<Rightarrow> error + mat"
  imp_get_external_input ::
    "vec \<Rightarrow> real \<Rightarrow> real \<Rightarrow> real \<Rightarrow> real \<Rightarrow> real \<Rightarrow> real \<Rightarrow> int \<Rightarrow> error + vec"

text \<open>The state the loop carries: the tuple \<open>(t, u, params, i_delay, i_amp, i_dur, dt,
  radius, length_single_compartment, num_neighbours, coupling_conds,
  branches_in_each_level, parents, saveat)\<close>.\<close>

type_synonym loop_state =
  "real \<times> vec \<times> vec \<times> real \<times> real \<times> real \<times> real \<times> real \<times> real \<times> vec \<times> real
     \<times> int list list \<times> int list \<times> vec"

subsection \<open>One step\<close>

definition find_root ::
  "imported \<Rightarrow> globals \<Rightarrow> real \<Rightarrow> vec \<Rightarrow> vec \<Rightarrow> real \<Rightarrow> real \<Rightarrow> real \<Rightarrow> real \<Rightarrow> real \<Rightarrow> real
     \<Rightarrow> vec \<Rightarrow> real \<Rightarrow> int list list \<Rightarrow> int list \<Rightarrow> error + vec" where
  "find_root imp g t u params i_delay i_amp i_dur dt radius length_single_compartment
       num_neighbours coupling_conds branches_in_each_level parents =
     (let voltages = strided u 0 4;
          ms = strided u 1 4;
          hs = strided u 2 4;
          ns = strided u 3 4
      in
      and_then (imp_m_gate imp voltages) (\<lambda>(am, bm).
      and_then (imp_solve_gate_implicit imp ms dt am bm) (\<lambda>new_m.
      and_then (imp_h_gate imp voltages) (\<lambda>(ah, bh).
      and_then (imp_solve_gate_implicit imp hs dt ah bh) (\<lambda>new_h.
      and_then (imp_n_gate imp voltages) (\<lambda>(an, bn).
      and_then (imp_solve_gate_implicit imp ns dt an bn) (\<lambda>new_n.
      and_then (vmul (strided params 0 3) (vpow ms 3)) (\<lambda>p1.
      and_then (vmul p1 hs) (\<lambda>na_conds.
      and_then (vmul (strided params 1 3) (vpow ns 4)) (\<lambda>kd_conds.
      let leak_conds = strided params 2 3 in
      and_then (imp_get_external_input imp voltages t i_delay i_dur i_amp radius
                  length_single_compartment (NSEG_PER_BRANCH g)) (\<lambda>i_ext.
      and_then (imp_define_all_tridiags imp voltages na_conds kd_conds leak_conds i_ext
                  num_neighbours (NSEG_PER_BRANCH g) (NUM_BRANCHES g) dt coupling_conds)
        (\<lambda>(lowers, diags, uppers, solves).
      and_then (imp_solve_branched imp branches_in_each_level parents lowers diags uppers
                  solves (- dt * coupling_conds)) (\<lambda>solves.
      and_then (concatenate solves) (\<lambda>new_v.
      and_then (column_stack4 new_v new_m new_h new_n) (\<lambda>stacked.
        Inr (ravel stacked))))))))))))))))"

subsection \<open>The loop body and the driver\<close>

fun body_fun :: "imported \<Rightarrow> globals \<Rightarrow> int \<Rightarrow> loop_state \<Rightarrow> error + loop_state" where
  "body_fun imp g i (t, u_inner, params, i_delay, i_amp, i_dur, dt, radius,
       length_single_compartment, num_neighbours, coupling_conds, branches_in_each_level,
       parents, saveat) =
     and_then (find_root imp g t u_inner params i_delay i_amp i_dur dt radius
                 length_single_compartment num_neighbours coupling_conds
                 branches_in_each_level parents) (\<lambda>u_inner.
       let t = t + dt in
       and_then (index0 u_inner) (\<lambda>u0.
       and_then (at_index_set saveat i u0) (\<lambda>saveat.
         Inr (t, u_inner, params, i_delay, i_amp, i_dur, dt, radius,
              length_single_compartment, num_neighbours, coupling_conds,
              branches_in_each_level, parents, saveat))))"

text \<open>\<open>final_state[-1]\<close>, the last component of the tuple.\<close>

fun last_component :: "loop_state \<Rightarrow> vec" where
  "last_component (t, u, params, i_delay, i_amp, i_dur, dt, radius,
       length_single_compartment, num_neighbours, coupling_conds, branches_in_each_level,
       parents, saveat) = saveat"

text \<open>The shapes of the arrays in the tuple the loop carries; its other components are
  scalars.\<close>

fun carry_shape :: "loop_state \<Rightarrow> nat \<times> nat \<times> nat \<times> nat list \<times> nat \<times> nat" where
  "carry_shape (t, u, params, i_delay, i_amp, i_dur, dt, radius,
       length_single_compartment, num_neighbours, coupling_conds, branches_in_each_level,
       parents, saveat) =
     (length u, length params, length num_neighbours, map length branches_in_each_level,
      length parents, length saveat)"

text \<open>The shapes of the values the loop of a call carries, but for the recording buffer,
  which has 1000 entries in every call.\<close>

definition shape_of :: "cell \<Rightarrow> vec \<Rightarrow> vec \<Rightarrow> shape_key" where
  "shape_of cell u params =
     (length u, length params, length (cell_num_neighbours cell),
      map length (cell_branches_in_each_level cell), length (cell_parents cell))"

text \<open>
  \<open>solve\<close> first assigns the two globals, then runs the loop. When the process holds
  a trace of the body for the shapes of this call, the loop runs that trace, with the
  globals as they were when it was made; otherwise the body is traced now, with the
  globals just assigned, and the trace is kept once the loop has run without raising.
  The result is the returned value together with the process state after the call.
\<close>

definition solve ::
  "imported \<Rightarrow> process \<Rightarrow> cell \<Rightarrow> real \<Rightarrow> vec \<Rightarrow> vec \<Rightarrow> stimulus \<Rightarrow> (error + vec) \<times> process" where
  "solve imp p cell dt u params stimulus =
     (let g = module_globals p;
          g = g\<lparr>NUM_BRANCHES := cell_num_branches cell\<rparr>;
          g = g\<lparr>NSEG_PER_BRANCH := cell_nseg_per_branch cell\<rparr>;
          key = shape_of cell u params;
          traced = (case trace_cache p key of None \<Rightarrow> g | Some g0 \<Rightarrow> g0)
      in
      case
        and_then (jnp_zeros 1000) (\<lambda>saveat.
          let t = 0.0;
              init_state =
                (t, u, params, stim_i_delay stimulus, stim_i_amp stimulus,
                 stim_i_dur stimulus, dt, cell_radius cell,
                 cell_length_single_compartment cell, cell_num_neighbours cell,
                 cell_coupling_conds cell, cell_branches_in_each_level cell,
                 cell_parents cell, saveat)
          in and_then (fori_loop carry_shape 0 1000 (body_fun imp traced) init_state)
               (\<lambda>final_state.
               Inr (last_component final_state)))
      of
        Inl e \<Rightarrow> (Inl e, p\<lparr>module_globals := g\<rparr>)
      | Inr trace \<Rightarrow>
          (Inr trace,
           \<lparr>module_globals = g, trace_cache = (trace_cache p)(key := Some traced)\<rparr>))"

section \<open>Notions used to state the properties\<close>

text \<open>The number of entries of an array that are not zero.\<close>

definition count_nonzero :: "vec \<Rightarrow> nat" where
  "count_nonzero x = length (filter (\<lambda>a. a \<noteq> 0) x)"

text \<open>
  The entries of the diagonal and of the right-hand side, written as the specification
  states them, for the compartment with flat index \<open>i\<close>.
\<close>

definition spec_a_v :: "real \<Rightarrow> real \<Rightarrow> vec \<Rightarrow> vec \<Rightarrow> vec \<Rightarrow> vec \<Rightarrow> nat \<Rightarrow> real" where
  "spec_a_v dt coupling_conds na_conds kd_conds leak_conds num_neighbours i =
     1 + dt * (na_conds ! i + kd_conds ! i + leak_conds ! i)
       + dt * num_neighbours ! i * coupling_conds"

definition spec_b_v :: "real \<Rightarrow> vec \<Rightarrow> vec \<Rightarrow> vec \<Rightarrow> vec \<Rightarrow> vec \<Rightarrow> nat \<Rightarrow> real" where
  "spec_b_v dt voltages na_conds kd_conds leak_conds i_ext i =
     voltages ! i + dt * (50 * na_conds ! i - 90 * kd_conds ! i - 65 * leak_conds ! i + i_ext ! i)"

text \<open>
  The three ionic conductances as the specification states them, read from the incoming
  state vector \<open>u\<close> (compartment \<open>k\<close> holds its voltage at \<open>4 k\<close> and its gates
  \<open>m\<close>, \<open>h\<close>, \<open>n\<close> at \<open>4 k + 1\<close>, \<open>4 k + 2\<close>, \<open>4 k + 3\<close>) and from the
  parameter vector (\<open>3 k\<close>, \<open>3 k + 1\<close>, \<open>3 k + 2\<close>), for \<open>N\<close> compartments.
\<close>

definition spec_na_conds :: "nat \<Rightarrow> vec \<Rightarrow> vec \<Rightarrow> vec" where
  "spec_na_conds N u params =
     map (\<lambda>k. params ! (3 * k) * (u ! (4 * k + 1)) ^ 3 * u ! (4 * k + 2)) [0..<N]"

definition spec_kd_conds :: "nat \<Rightarrow> vec \<Rightarrow> vec \<Rightarrow> vec" where
  "spec_kd_conds N u params = map (\<lambda>k. params ! (3 * k + 1) * (u ! (4 * k + 3)) ^ 4) [0..<N]"

definition spec_leak_conds :: "nat \<Rightarrow> vec \<Rightarrow> vec" where
  "spec_leak_conds N params = map (\<lambda>k. params ! (3 * k + 2)) [0..<N]"

text \<open>
  The sizes the loop of a call runs with: those of a trace the process holds for the
  shapes of the call, and those of \<open>cell\<close> when it holds none.
\<close>

definition sizes_in_use :: "process \<Rightarrow> cell \<Rightarrow> vec \<Rightarrow> vec \<Rightarrow> globals" where
  "sizes_in_use p cell u params =
     (case trace_cache p (shape_of cell u params) of
        None \<Rightarrow> \<lparr>NUM_BRANCHES = cell_num_branches cell,
                 NSEG_PER_BRANCH = cell_nseg_per_branch cell\<rparr>
      | Some g0 \<Rightarrow> g0)"

text \<open>
  The state of the simulation after \<open>k\<close> steps, as the specification describes the run:
  time starts at 0 and the state at \<open>u\<close>; each step replaces the state by the result of
  the per-step update, run with the sizes \<open>g\<close>, and advances the time by \<open>dt\<close>. A step
  that raises ends the run.
\<close>

definition step ::
  "imported \<Rightarrow> globals \<Rightarrow> cell \<Rightarrow> stimulus \<Rightarrow> real \<Rightarrow> vec \<Rightarrow> real \<times> vec
     \<Rightarrow> error + real \<times> vec" where
  "step imp g cell stimulus dt params =
     (\<lambda>(t, u).
        and_then
          (find_root imp g
             t u params (stim_i_delay stimulus) (stim_i_amp stimulus) (stim_i_dur stimulus) dt
             (cell_radius cell) (cell_length_single_compartment cell)
             (cell_num_neighbours cell) (cell_coupling_conds cell)
             (cell_branches_in_each_level cell) (cell_parents cell))
          (\<lambda>u'. Inr (t + dt, u')))"

primrec state_after ::
  "imported \<Rightarrow> globals \<Rightarrow> cell \<Rightarrow> stimulus \<Rightarrow> real \<Rightarrow> vec \<Rightarrow> vec \<Rightarrow> nat
     \<Rightarrow> error + real \<times> vec" where
  "state_after imp g cell stimulus dt params u 0 = Inr (0, u)"
| "state_after imp g cell stimulus dt params u (Suc k) =
     and_then (state_after imp g cell stimulus dt params u k)
       (step imp g cell stimulus dt params)"

text \<open>The tuple the loop carries when the time and the state vector are \<open>s\<close> and the
  recording buffer is \<open>saveat\<close>; its other components are the arguments of the run.\<close>

definition loop_state_of ::
  "cell \<Rightarrow> stimulus \<Rightarrow> real \<Rightarrow> vec \<Rightarrow> real \<times> vec \<Rightarrow> vec \<Rightarrow> loop_state" where
  "loop_state_of cell stimulus dt params s saveat =
     (fst s, snd s, params, stim_i_delay stimulus, stim_i_amp stimulus, stim_i_dur stimulus, dt,
      cell_radius cell, cell_length_single_compartment cell, cell_num_neighbours cell,
      cell_coupling_conds cell, cell_branches_in_each_level cell, cell_parents cell, saveat)"

text \<open>Step \<open>k\<close> succeeded and left a state vector of the length of \<open>u\<close>, with a
  compartment 0 to record.\<close>

definition step_ok ::
  "imported \<Rightarrow> globals \<Rightarrow> cell \<Rightarrow> stimulus \<Rightarrow> real \<Rightarrow> vec \<Rightarrow> vec \<Rightarrow> nat \<Rightarrow> bool" where
  "step_ok imp g cell stimulus dt params u k =
     (case state_after imp g cell stimulus dt params u k of
        Inl e \<Rightarrow> False
      | Inr (t, u') \<Rightarrow> u' \<noteq> [] \<and> length u' = length u)"

text \<open>The voltage of compartment 0 after \<open>k\<close> steps.\<close>

definition recorded ::
  "imported \<Rightarrow> globals \<Rightarrow> cell \<Rightarrow> stimulus \<Rightarrow> real \<Rightarrow> vec \<Rightarrow> vec \<Rightarrow> nat \<Rightarrow> real" where
  "recorded imp g cell stimulus dt params u k =
     (case state_after imp g cell stimulus dt params u k of
        Inl e \<Rightarrow> 0
      | Inr (t, u') \<Rightarrow> (case u' of [] \<Rightarrow> 0 | v0 # rest \<Rightarrow> v0))"

text \<open>The product of a tridiagonal matrix, given by its three diagonals, with a vector.\<close>

definition tridiag_apply :: "vec \<Rightarrow> vec \<Rightarrow> vec \<Rightarrow> vec \<Rightarrow> vec" where
  "tridiag_apply lower diag upper x =
     map (\<lambda>i. (if 0 < i then lower ! (i - 1) * x ! (i - 1) else 0)
              + diag ! i * x ! i
              + (if i + 1 < length x then upper ! i * x ! (i + 1) else 0))
         [0..<length x]"

text \<open>
  Modelled from the spec: \<open>solve_branched\<close> (neurax.implicit_euler) is not among the
  sources. The specification requires that it "must exactly solve each branch's local
  tridiagonal system once junction coupling has been folded in", returning "one solved
  voltage vector per branch (same partition as the input)". The predicate says that a
  solver meets this on one input whose junction coupling term is zero, so that nothing
  is folded in: it returns, and the vector of every branch solves the system of that
  branch.
\<close>

definition solve_branched_exact ::
  "(int list list \<Rightarrow> int list \<Rightarrow> mat \<Rightarrow> mat \<Rightarrow> mat \<Rightarrow> mat \<Rightarrow> real \<Rightarrow> error + mat)
     \<Rightarrow> int list list \<Rightarrow> int list \<Rightarrow> mat \<Rightarrow> mat \<Rightarrow> mat \<Rightarrow> mat \<Rightarrow> bool" where
  "solve_branched_exact solver levels parents lowers diags uppers solves =
     (case solver levels parents lowers diags uppers solves 0 of
        Inl e \<Rightarrow> False
      | Inr xs \<Rightarrow>
          length xs = length solves \<and>
          list_all (\<lambda>b. length (xs ! b) = length (solves ! b) \<and>
                        tridiag_apply (lowers ! b) (diags ! b) (uppers ! b) (xs ! b) = solves ! b)
            [0..<length solves])"

text \<open>
  Stand-ins for the imported functions, to run the driver on concrete inputs: gates
  with constant zero rates whose update leaves the gate where it is, the assembly and
  the stimulus of vectorfield.py (which has no \<open>i_delay\<close> argument), and a solver that
  returns the right-hand sides, which is exact when the systems are the identity.
\<close>

definition demo_imported :: imported where
  "demo_imported =
     \<lparr>imp_solve_gate_implicit = (\<lambda>gate dt alpha beta. Inr gate),
      imp_m_gate = (\<lambda>v. Inr (zeros_like v, zeros_like v)),
      imp_h_gate = (\<lambda>v. Inr (zeros_like v, zeros_like v)),
      imp_n_gate = (\<lambda>v. Inr (zeros_like v, zeros_like v)),
      imp_define_all_tridiags = define_all_tridiags,
      imp_solve_branched = (\<lambda>levels parents lowers diags uppers solves c. Inr solves),
      imp_get_external_input =
        (\<lambda>voltages t i_delay i_dur i_amp radius length_single_compartment nseg_per_branch.
           get_external_input voltages t i_dur i_amp radius length_single_compartment
             nseg_per_branch)\<rparr>"

text \<open>A cell of two branches with two compartments each, without coupling, and a
  stimulus of amplitude zero.\<close>

definition demo_cell :: cell where
  "demo_cell =
     \<lparr>cell_num_branches = 2, cell_nseg_per_branch = 2, cell_radius = 1,
      cell_length_single_compartment = 1, cell_num_neighbours = [2, 1, 1, 2],
      cell_coupling_conds = 0, cell_branches_in_each_level = [[0], [1]],
      cell_parents = [- 1, 0]\<rparr>"

definition demo_stimulus :: stimulus where
  "demo_stimulus = \<lparr>stim_i_delay = 5, stim_i_amp = 0, stim_i_dur = 10\<rparr>"

definition demo_u :: vec where
  "demo_u = [- 65, 1 / 2, 1 / 4, 1 / 8, - 70, 0, 1, 1 / 2, - 60, 1, 0, 0, - 55, 1 / 3, 1 / 3, 1 / 3]"

definition demo_params :: vec where
  "demo_params = [0, 0, 0, 0, 0, 0, 0, 0, 0, 0, 0, 0]"

text \<open>The same arrays declared as four branches of one compartment each, and a stimulus
  of amplitude \<open>2 \<pi>\<close> that lasts for the single instant \<open>t = 5\<close>.\<close>

definition demo_cell_four :: cell where
  "demo_cell_four = demo_cell\<lparr>cell_num_branches := 4, cell_nseg_per_branch := 1\<rparr>"


section \<open>Properties of the array primitives\<close>

lemma and_then_Inr [simp]: "and_then (Inr x) f = f x"
  by (simp add: and_then_def)

lemma and_then_Inl [simp]: "and_then (Inl e) f = Inl e"
  by (simp add: and_then_def)

lemma length_at_set [simp]: "length (at_set x i v) = length x"
  by (simp add: at_set_def Let_def)

lemma length_zeros_like [simp]: "length (zeros_like x) = length x"
  by (simp add: zeros_like_def)

lemma at_set_in_range:
  "0 \<le> i \<Longrightarrow> i < int (length x) \<Longrightarrow> at_set x i v = x[nat i := v]"
  by (simp add: at_set_def Let_def)

lemma at_set_nat: "k < length x \<Longrightarrow> at_set x (int k) v = x[k := v]"
  by (simp add: at_set_def Let_def)

lemma at_index_set_nonempty: "x \<noteq> [] \<Longrightarrow> at_index_set x i v = Inr (at_set x i v)"
  by (simp add: at_index_set_def)

lemma py_range_int: "py_range (int n) = map int [0..<n]"
  by (simp add: py_range_def)

section \<open>Properties of the external stimulus\<close>

lemma get_external_input_returns:
  assumes "r \<noteq> 0" "len \<noteq> 0" "voltages \<noteq> []"
  shows "get_external_input voltages t i_dur i_amp r len nseg =
     Inr (if 5 \<le> t \<and> t \<le> 5 + i_dur
          then at_set (replicate (length voltages) 0) (nseg - 1) (i_amp / 2 / pi / r / len)
          else replicate (length voltages) 0)"
proof -
  have "zeros_like voltages \<noteq> []" using assms(3) by (simp add: zeros_like_def)
  then show ?thesis
    using assms(1,2)
    by (simp add: get_external_input_def py_div_def at_index_set_nonempty Let_def zeros_like_def)
qed

lemma get_external_input_raises:
  "get_external_input voltages t i_dur i_amp 0 len nseg = Inl ZeroDivisionError"
  "r \<noteq> 0 \<Longrightarrow> get_external_input voltages t i_dur i_amp r 0 nseg = Inl ZeroDivisionError"
  "r \<noteq> 0 \<Longrightarrow> len \<noteq> 0 \<Longrightarrow> get_external_input [] t i_dur i_amp r len nseg = Inl IndexError"
  by (simp_all add: get_external_input_def py_div_def at_index_set_def Let_def zeros_like_def)

lemma count_nonzero_replicate [simp]: "count_nonzero (replicate n 0) = 0"
  by (simp add: count_nonzero_def)

lemma count_nonzero_update:
  "count_nonzero ((replicate n 0)[k := c]) = (if k < n \<and> c \<noteq> 0 then 1 else 0)"
proof (induction n arbitrary: k)
  case 0
  then show ?case by (simp add: count_nonzero_def)
next
  case (Suc n)
  show ?case
  proof (cases k)
    case 0
    then show ?thesis using count_nonzero_replicate [of n] by (simp add: count_nonzero_def)
  next
    case (Suc j)
    then show ?thesis using Suc.IH [of j] by (simp add: count_nonzero_def)
  qed
qed

lemma count_nonzero_at_set:
  "count_nonzero (at_set (replicate n 0) i c) =
     (if - int n \<le> i \<and> i < int n \<and> c \<noteq> 0 then 1 else 0)"
  by (auto simp: at_set_def Let_def count_nonzero_update)

text \<open>
  C2, as amended. For a radius and a compartment length that are not zero, a non-empty
  \<open>voltages\<close> (the call raises otherwise) and an index \<open>nseg_per_branch - 1\<close> in the
  32-bit range, \<open>get_external_input\<close> returns a vector of the length of \<open>voltages\<close>.
  Outside the window (\<open>t < 5\<close> or \<open>t > 5 + i_dur\<close>) it is all zero. The vector has
  exactly one entry that is not zero when \<open>t\<close> is inside the window, the amplitude
  \<open>i_amp\<close> is not zero and the index (counted from the end when negative) falls inside
  the array, and none otherwise.
\<close>

theorem get_external_input_window:
  assumes "r \<noteq> 0" "len \<noteq> 0" "voltages \<noteq> []"
    and "- (2 ^ 31) \<le> nseg - 1" "nseg - 1 < 2 ^ 31"
  shows "\<exists>x. get_external_input voltages t i_dur i_amp r len nseg = Inr x \<and>
     length x = length voltages \<and>
     (t < 5 \<or> 5 + i_dur < t \<longrightarrow> x = replicate (length voltages) 0) \<and>
     count_nonzero x =
       (if 5 \<le> t \<and> t \<le> 5 + i_dur \<and> i_amp \<noteq> 0 \<and>
           1 - int (length voltages) \<le> nseg \<and> nseg \<le> int (length voltages)
        then 1 else 0)"
proof (cases "5 \<le> t \<and> t \<le> 5 + i_dur")
  case True
  then show ?thesis
    using assms(1,2)
    by (auto simp: get_external_input_returns [OF assms(1-3)] count_nonzero_at_set)
next
  case False
  then show ?thesis
    using assms(1,2) by (auto simp: get_external_input_returns [OF assms(1-3)])
qed

text \<open>
  The amended C2 at a time before the window and at a time inside it.
\<close>

theorem get_external_input_window_witness:
  "get_external_input [-65, -65, -65] 4 10 2 1 1 3 = Inr [0, 0, 0] \<and>
   (\<exists>x. get_external_input [-65, -65, -65] 6 10 2 1 1 3 = Inr x \<and> count_nonzero x = 1)"
  using get_external_input_window [where r = 1 and len = 1 and voltages = "[-65, -65, -65]"
          and t = 4 and i_dur = 10 and i_amp = 2 and nseg = 3]
        get_external_input_window [where r = 1 and len = 1 and voltages = "[-65, -65, -65]"
          and t = 6 and i_dur = 10 and i_amp = 2 and nseg = 3]
  by auto

text \<open>
  C2 as stated fails: at \<open>t = 5\<close>, inside the window, an amplitude of zero gives
  the all-zero vector, with no entry different from zero.
\<close>

theorem get_external_input_zero_amplitude_counterexample:
  "(5::real) \<le> 5 \<and> (5::real) \<le> 5 + 1 \<and>
   get_external_input [-65, -65] 5 1 0 1 1 2 = Inr [0, 0] \<and>
   count_nonzero [0, 0] = 0"
  by (simp add: get_external_input_def py_div_def at_index_set_def zeros_like_def at_set_def
      count_nonzero_def)

text \<open>
  C5. While the stimulus is active (\<open>5 \<le> t \<le> 5 + i_dur\<close>), on a morphology whose
  first branch lies inside the array (\<open>1 \<le> nseg_per_branch \<le> length voltages\<close>) and
  with a radius and a compartment length that are not zero, the call returns; the output
  has the length of \<open>voltages\<close>, is zero at every index but \<open>nseg_per_branch - 1\<close>,
  and holds \<open>i_amp / (2 \<pi> radius length_single_compartment)\<close> there; with
  \<open>i_amp = 2 \<pi>\<close>, radius 1 and length 1 that entry is 1.
\<close>

theorem get_external_input_active_entry:
  assumes "5 \<le> t" "t \<le> 5 + i_dur" "1 \<le> nseg" "nseg \<le> int (length voltages)"
    and "r \<noteq> 0" "len \<noteq> 0"
  shows "\<exists>x y. get_external_input voltages t i_dur i_amp r len nseg = Inr x \<and>
     length x = length voltages \<and>
     (\<forall>k < length voltages. k \<noteq> nat (nseg - 1) \<longrightarrow> x ! k = 0) \<and>
     x ! nat (nseg - 1) = i_amp / (2 * pi * r * len) \<and>
     get_external_input voltages t i_dur (2 * pi) 1 1 nseg = Inr y \<and>
     y ! nat (nseg - 1) = 1"
proof -
  have idx: "0 \<le> nseg - 1" "nseg - 1 < int (length voltages)" "nat (nseg - 1) < length voltages"
    using assms by auto
  have ne: "voltages \<noteq> []" using idx(3) by auto
  have eq: "get_external_input voltages t i_dur a r' l' nseg =
      Inr ((replicate (length voltages) 0)[nat (nseg - 1) := a / 2 / pi / r' / l'])"
    if "r' \<noteq> 0" "l' \<noteq> 0" for a r' l'
    using assms(1,2) idx by (simp add: get_external_input_returns [OF that ne] at_set_in_range)
  show ?thesis
    using idx assms(5,6) by (simp add: eq)
qed

text \<open>
  C5 at \<open>t = 5\<close>, \<open>i_dur = 10\<close>, \<open>i_amp = 2 \<pi>\<close>, on three compartments.
\<close>

theorem get_external_input_active_entry_witness:
  "get_external_input [-65, -70, -60] 5 10 (2 * pi) 1 1 3 = Inr [0, 0, 1]"
proof -
  obtain x where x: "get_external_input [-65, -70, -60] 5 10 (2 * pi) 1 1 3 = Inr x"
    "length x = 3" "\<forall>k < 3. k \<noteq> 2 \<longrightarrow> x ! k = 0" "x ! 2 = 2 * pi / (2 * pi * 1 * 1)"
    using get_external_input_active_entry [of 5 10 3 "[-65, -70, -60]" 1 1 "2 * pi"]
    by auto
  have "x ! 0 = 0" "x ! 1 = 0" "x ! 2 = 1"
    using x(3) [rule_format, of 0] x(3) [rule_format, of 1] x(4) by simp_all
  then have "x = [0, 0, 1]"
    using x(2) by (intro nth_equalityI) (auto simp: less_Suc_eq numeral_3_eq_3 numeral_2_eq_2)
  then show ?thesis using x(1) by simp
qed

text \<open>
  C10. The result of \<open>get_external_input\<close> depends on \<open>voltages\<close> only through its
  length: two voltage vectors of the same length give the same currents (or the same
  exception), all other arguments being equal.
\<close>

theorem get_external_input_voltages_length_only:
  "length voltages1 = length voltages2 \<Longrightarrow>
   get_external_input voltages1 t i_dur i_amp r len nseg =
   get_external_input voltages2 t i_dur i_amp r len nseg"
  by (simp add: get_external_input_def zeros_like_def)

text \<open>
  C10 on two voltage vectors of length three, inside the window.
\<close>

theorem get_external_input_voltages_length_only_witness:
  "length [-65, -70, 12 :: real] = length [0, 1, 2 :: real] \<and>
   get_external_input [-65, -70, 12] 6 2 3 1 1 3 = get_external_input [0, 1, 2] 6 2 3 1 1 3 \<and>
   get_external_input [0, 1, 2] 6 2 3 1 1 3 = Inr [0, 0, 3 / 2 / pi]"
  using get_external_input_voltages_length_only [of "[-65, -70, 12]" "[0, 1, 2]" 6 2 3 1 1 3]
  by (simp add: get_external_input_def py_div_def at_index_set_def zeros_like_def at_set_def)

section \<open>Properties of the neighbour counts\<close>

lemma foldl_at_set_first_compartments:
  assumes "1 \<le> nseg" "length x = nb * nseg" "m \<le> nb" "m \<le> length vals"
  shows "length (foldl (\<lambda>a (i, v). at_set a i v) x
            (zip (map (\<lambda>b. int b * int nseg) [0..<m]) (take m vals))) = length x \<and>
         (\<forall>k < length x.
            foldl (\<lambda>a (i, v). at_set a i v) x
              (zip (map (\<lambda>b. int b * int nseg) [0..<m]) (take m vals)) ! k =
            (if k mod nseg = 0 \<and> k div nseg < m then vals ! (k div nseg) else x ! k))"
  using assms(3,4)
proof (induction m)
  case 0
  then show ?case by simp
next
  case (Suc m)
  let ?f = "\<lambda>a (i, v). at_set a i (v::'a)"
  let ?r = "foldl ?f x (zip (map (\<lambda>b. int b * int nseg) [0..<m]) (take m vals))"
  have m: "m < nb" "m < length vals" using Suc.prems by auto
  then have "m \<le> nb" "m \<le> length vals" by simp_all
  note ih = Suc.IH [OF this]
  have IH: "length ?r = length x"
    "\<And>k. k < length x \<Longrightarrow> ?r ! k = (if k mod nseg = 0 \<and> k div nseg < m then vals ! (k div nseg) else x ! k)"
    using ih by blast+
  have pos: "m * nseg < length x"
    using m(1) assms(1,2) by simp
  have step: "foldl ?f x (zip (map (\<lambda>b. int b * int nseg) [0..<Suc m]) (take (Suc m) vals)) =
      at_set ?r (int m * int nseg) (vals ! m)"
    using m(2) by (simp add: take_Suc_conv_app_nth)
  have upd: "at_set ?r (int m * int nseg) (vals ! m) = ?r[m * nseg := vals ! m]"
  proof -
    have "int m * int nseg < int (length ?r)"
      using pos IH(1) by (simp only: of_nat_mult [symmetric] of_nat_less_iff)
    then show ?thesis
      by (simp add: at_set_in_range nat_mult_distrib)
  qed
  show ?case
  proof (intro conjI allI impI)
    show "length (foldl ?f x (zip (map (\<lambda>b. int b * int nseg) [0..<Suc m]) (take (Suc m) vals))) = length x"
      by (simp only: step length_at_set IH(1))
  next
    fix k assume k: "k < length x"
    have nseg: "0 < nseg" using assms(1) by simp
    have "(?r[m * nseg := vals ! m]) ! k =
        (if k mod nseg = 0 \<and> k div nseg < Suc m then vals ! (k div nseg) else x ! k)"
    proof (cases "k = m * nseg")
      case True
      then show ?thesis using k IH(1) nseg by simp
    next
      case False
      have "\<not> (k mod nseg = 0 \<and> k div nseg = m)"
      proof
        assume a: "k mod nseg = 0 \<and> k div nseg = m"
        have "k = k div nseg * nseg + k mod nseg" by simp
        with a have "k = m * nseg" by simp
        with False show False by simp
      qed
      then have "(k mod nseg = 0 \<and> k div nseg < Suc m) = (k mod nseg = 0 \<and> k div nseg < m)"
        by (auto simp: less_Suc_eq)
      then show ?thesis using False k IH by simp
    qed
    then show "foldl ?f x (zip (map (\<lambda>b. int b * int nseg) [0..<Suc m]) (take (Suc m) vals)) ! k =
        (if k mod nseg = 0 \<and> k div nseg < Suc m then vals ! (k div nseg) else x ! k)"
      by (simp only: step upd)
  qed
qed

lemma get_num_neighbours_unfold:
  assumes "1 \<le> nseg" "length num_kids = nb" "1 \<le> nb"
  shows "get_num_neighbours num_kids (int nseg) (int nb) =
     Inr (foldl (\<lambda>a (i, v). at_set a i v)
            ((replicate (nb * nseg) 2)[nseg - 1 := 1])
            (zip (map (\<lambda>b. int b * int nseg) [0..<nb]) (take nb (map (\<lambda>a. a + 1) num_kids))))"
proof -
  have n: "int nb * int nseg = int (nb * nseg)" by simp
  have "nseg \<le> nb * nseg" using assms(3) by simp
  then have lt: "nseg - 1 < nb * nseg" using assms(1) by arith
  have a: "at_set (replicate (nb * nseg) (2::real)) (int nseg - 1) 1 = (replicate (nb * nseg) 2)[nseg - 1 := 1]"
  proof -
    have e: "int nseg - 1 = int (nseg - 1)" using assms(1) by simp
    have "at_set (replicate (nb * nseg) (2::real)) (int (nseg - 1)) 1 =
        (replicate (nb * nseg) 2)[nseg - 1 := 1]"
      using lt by (simp add: at_set_nat)
    then show ?thesis by (simp only: e)
  qed
  have nonneg: "\<not> int nb * int nseg < 0"
    by (simp add: zero_le_mult_iff not_less)
  have size: "nat (int nb * int nseg) = nb * nseg"
    by (simp add: nat_mult_distrib)
  have ne: "replicate (nb * nseg) (2::real) \<noteq> []"
    using assms(1,3) by simp
  show ?thesis
    using assms(2) a nonneg size ne
    by (simp add: get_num_neighbours_def jnp_ones_def smul_def adds_def at_set_many_def
        at_index_set_nonempty py_range_int comp_def Let_def)
qed


text \<open>
  C1, as amended. For \<open>num_branches \<ge> 1\<close>, \<open>nseg_per_branch \<ge> 1\<close> and one child
  count per branch, \<open>get_num_neighbours\<close> returns a vector of length
  \<open>num_branches * nseg_per_branch\<close> in which the first compartment of every branch
  \<open>b\<close> (flat index \<open>b * nseg_per_branch\<close>) has value \<open>num_kids[b] + 1\<close>, the last
  compartment of branch 0 (flat index \<open>nseg_per_branch - 1\<close>) has value 1 when the
  branch has at least two compartments, and every other compartment has value 2: the
  last compartments of the other branches too.
\<close>

theorem get_num_neighbours_values:
  assumes "1 \<le> nb" "1 \<le> nseg" "length num_kids = nb"
  shows "\<exists>r. get_num_neighbours num_kids (int nseg) (int nb) = Inr r \<and>
     length r = nb * nseg \<and>
     (\<forall>b < nb. r ! (b * nseg) = num_kids ! b + 1) \<and>
     (2 \<le> nseg \<longrightarrow> r ! (nseg - 1) = 1) \<and>
     (\<forall>k < nb * nseg. k mod nseg \<noteq> 0 \<and> k \<noteq> nseg - 1 \<longrightarrow> r ! k = 2)"
proof -
  let ?x = "(replicate (nb * nseg) (2::real))[nseg - 1 := 1]"
  let ?vals = "map (\<lambda>a. a + 1) num_kids"
  let ?r = "foldl (\<lambda>a (i, v). at_set a i v) ?x
              (zip (map (\<lambda>b. int b * int nseg) [0..<nb]) (take nb ?vals))"
  have lenx: "length ?x = nb * nseg" by simp
  have fold: "length ?r = length ?x \<and>
      (\<forall>k < length ?x. ?r ! k =
         (if k mod nseg = 0 \<and> k div nseg < nb then ?vals ! (k div nseg) else ?x ! k))"
    using assms by (intro foldl_at_set_first_compartments [where nb = nb]) simp_all
  have len: "length ?r = nb * nseg" using fold lenx by simp
  have nth: "?r ! k = (if k mod nseg = 0 \<and> k div nseg < nb then ?vals ! (k div nseg) else ?x ! k)"
    if "k < nb * nseg" for k
    using fold that lenx by simp
  have nseg: "0 < nseg" using assms(2) by simp
  have first: "?r ! (b * nseg) = num_kids ! b + 1" if "b < nb" for b
  proof -
    have "b * nseg < nb * nseg" using that nseg by simp
    then show ?thesis using nth [of "b * nseg"] that nseg assms(3) by simp
  qed
  have last_root: "?r ! (nseg - 1) = 1" if "2 \<le> nseg"
  proof -
    have "nseg \<le> nb * nseg" using assms(1) by simp
    then have lt: "nseg - 1 < nb * nseg" using nseg by arith
    have "(nseg - 1) mod nseg = nseg - 1" using nseg by simp
    then have "(nseg - 1) mod nseg \<noteq> 0" using that by simp
    then show ?thesis using nth [OF lt] lt by simp
  qed
  have interior: "?r ! k = 2" if "k < nb * nseg" "k mod nseg \<noteq> 0" "k \<noteq> nseg - 1" for k
    using nth [OF that(1)] that by simp
  show ?thesis
    using get_num_neighbours_unfold [OF assms(2,3,1)] len first last_root interior by blast
qed

text \<open>The amended C1 on three branches of four compartments, the first with two
  children.\<close>

theorem get_num_neighbours_values_witness:
  "\<exists>r. get_num_neighbours [2, 0, 0] 4 3 = Inr r \<and> length r = 12 \<and>
     r ! 0 = 3 \<and> r ! 4 = 1 \<and> r ! 8 = 1 \<and> r ! 3 = 1 \<and>
     r ! 1 = 2 \<and> r ! 7 = 2 \<and> r ! 11 = 2"
proof -
  obtain r where r: "get_num_neighbours [2, 0, 0] (int 4) (int 3) = Inr r" "length r = 3 * 4"
      "\<forall>b < 3. r ! (b * 4) = [2, 0, 0] ! b + 1" "r ! (4 - 1) = 1"
      "\<forall>k < 3 * 4. k mod 4 \<noteq> 0 \<and> k \<noteq> 4 - 1 \<longrightarrow> r ! k = 2"
    using get_num_neighbours_values [of 3 4 "[2, 0, 0]"] by auto
  have "r ! 0 = 3" "r ! 4 = 1" "r ! 8 = 1"
    using r(3) [rule_format, of 0] r(3) [rule_format, of 1] r(3) [rule_format, of 2]
    by simp_all
  moreover have "r ! 1 = 2" "r ! 7 = 2" "r ! 11 = 2"
    using r(5) [rule_format, of 1] r(5) [rule_format, of 7] r(5) [rule_format, of 11]
    by simp_all
  ultimately show ?thesis
    using r(1,2,4) by simp
qed

text \<open>
  C1 as stated fails: with two branches of two compartments, the last compartment of
  branch 1 (flat index 3) has value 2, not 1.
\<close>

theorem get_num_neighbours_last_compartment_counterexample:
  "get_num_neighbours [1, 0] 2 2 = Inr [2, 1, 1, 2] \<and>
   [2, 1, 1, 2 :: real] ! (1 * 2 + (2 - 1)) \<noteq> 1"
  by code_simp

section \<open>Properties of the tridiagonal systems\<close>

lemma vadd_same_length:
  "length x = length y \<Longrightarrow> vadd x y = Inr (map (\<lambda>k. x ! k + y ! k) [0..<length x])"
  by (auto simp: vadd_def broadcast2_def intro!: nth_equalityI)

lemma vmul_same_length:
  "length x = length y \<Longrightarrow> vmul x y = Inr (map (\<lambda>k. x ! k * y ! k) [0..<length x])"
  by (auto simp: vmul_def broadcast2_def intro!: nth_equalityI)

lemma define_tridiag_for_branch_same_length:
  assumes "length na = n" "length kd = n" "length leak = n" "length iext = n"
    "length nn = n" "length v = n"
  shows "define_tridiag_for_branch v na kd leak iext dt nn cc nseg =
     Inr (replicate (nat (nseg - 1)) (- dt * cc),
          map (spec_a_v dt cc na kd leak nn) [0..<n],
          replicate (nat (nseg - 1)) (- dt * cc),
          map (spec_b_v dt v na kd leak iext) [0..<n])"
  using assms
  by (simp add: define_tridiag_for_branch_def vadd_same_length smul_def sadd_def muls_def
      Let_def spec_a_v_def spec_b_v_def algebra_simps)

lemma py_slice_nat:
  assumes "lo \<le> hi" "hi \<le> length x"
  shows "py_slice x (int lo) (int hi) = take (hi - lo) (drop lo x)"
proof -
  have d: "nat (int hi - int lo) = hi - lo" by arith
  have m: "min (int lo) (int (length x)) = int lo" "min (int hi) (int (length x)) = int hi"
    using assms by simp_all
  show ?thesis
    by (simp only: py_slice_def Let_def m d of_nat_less_0_iff if_False nat_int)
qed

lemma py_slice_block:
  assumes "(b + 1) * nseg \<le> length x"
  shows "py_slice x (int b * int nseg) ((int b + 1) * int nseg) = take nseg (drop (b * nseg) x)"
proof -
  have l: "int b * int nseg = int (b * nseg)" by simp
  have u: "(int b + 1) * int nseg = int ((b + 1) * nseg)" by (simp add: algebra_simps)
  have "py_slice x (int (b * nseg)) (int ((b + 1) * nseg)) =
      take ((b + 1) * nseg - b * nseg) (drop (b * nseg) x)"
    using assms by (intro py_slice_nat) simp_all
  moreover have "(b + 1) * nseg - b * nseg = nseg" by simp
  ultimately show ?thesis by (simp only: l u)
qed

lemma length_block:
  "(b + 1) * nseg \<le> length x \<Longrightarrow> length (take nseg (drop (b * nseg) x)) = nseg"
  by simp

lemma nth_block:
  "(b + 1) * nseg \<le> length x \<Longrightarrow> k < nseg \<Longrightarrow>
   take nseg (drop (b * nseg) x) ! k = x ! (b * nseg + k)"
  by simp

lemma branch_loop_all_Inr:
  assumes "\<And>b. b \<in> set bs \<Longrightarrow> body b = Inr (f b)"
  shows "branch_loop body bs (lowers, diags, uppers, solves) =
     Inr (lowers @ map (\<lambda>b. fst (f b)) bs,
          diags @ map (\<lambda>b. fst (snd (f b))) bs,
          uppers @ map (\<lambda>b. fst (snd (snd (f b)))) bs,
          solves @ map (\<lambda>b. snd (snd (snd (f b)))) bs)"
  using assms
proof (induction bs arbitrary: lowers diags uppers solves)
  case Nil
  then show ?case by simp
next
  case (Cons b bs)
  obtain lower diag upper solve where f: "f b = (lower, diag, upper, solve)"
    by (cases "f b") auto
  have "body b = Inr (lower, diag, upper, solve)" using Cons.prems [of b] f by simp
  moreover have "\<And>b'. b' \<in> set bs \<Longrightarrow> body b' = Inr (f b')" using Cons.prems by simp
  ultimately show ?case using Cons.IH f by simp
qed

lemma asarray_uniform:
  "(\<And>r. r \<in> set rows \<Longrightarrow> length r = n) \<Longrightarrow> asarray rows = Inr rows"
  by (cases rows) (auto simp: asarray_def list_all_iff)


lemma branch_system:
  assumes len: "length v = nb * nseg" "length na = nb * nseg" "length kd = nb * nseg"
      "length leak = nb * nseg" "length iext = nb * nseg" "length nn = nb * nseg"
    and b: "b < nb"
  shows "define_tridiag_for_branch
           (py_slice v (int b * int nseg) ((int b + 1) * int nseg))
           (py_slice na (int b * int nseg) ((int b + 1) * int nseg))
           (py_slice kd (int b * int nseg) ((int b + 1) * int nseg))
           (py_slice leak (int b * int nseg) ((int b + 1) * int nseg))
           (py_slice iext (int b * int nseg) ((int b + 1) * int nseg))
           dt
           (py_slice nn (int b * int nseg) ((int b + 1) * int nseg))
           cc (int nseg) =
     Inr (replicate (nseg - 1) (- dt * cc),
          map (\<lambda>k. spec_a_v dt cc na kd leak nn (b * nseg + k)) [0..<nseg],
          replicate (nseg - 1) (- dt * cc),
          map (\<lambda>k. spec_b_v dt v na kd leak iext (b * nseg + k)) [0..<nseg])"
proof -
  have "(b + 1) * nseg \<le> nb * nseg" using b by (intro mult_le_mono1) simp
  then have fits: "(b + 1) * nseg \<le> length x" if "length x = nb * nseg" for x :: vec
    using that by simp
  have sl: "py_slice x (int b * int nseg) ((int b + 1) * int nseg) = take nseg (drop (b * nseg) x)"
    if "length x = nb * nseg" for x :: vec
    using fits [OF that] by (rule py_slice_block)
  have lb: "length (take nseg (drop (b * nseg) x)) = nseg" if "length x = nb * nseg" for x :: vec
    using fits [OF that] by (rule length_block)
  have nb': "take nseg (drop (b * nseg) x) ! k = x ! (b * nseg + k)"
    if "length x = nb * nseg" "k < nseg" for x :: vec and k
    using fits [OF that(1)] that(2) by (rule nth_block)
  have n1: "nat (int nseg - 1) = nseg - 1" by arith
  have a: "map (spec_a_v dt cc (take nseg (drop (b * nseg) na)) (take nseg (drop (b * nseg) kd))
             (take nseg (drop (b * nseg) leak)) (take nseg (drop (b * nseg) nn))) [0..<nseg] =
           map (\<lambda>k. spec_a_v dt cc na kd leak nn (b * nseg + k)) [0..<nseg]"
  proof (rule map_cong [OF refl])
    fix k assume "k \<in> set [0..<nseg]"
    then have k: "k < nseg" by simp
    show "spec_a_v dt cc (take nseg (drop (b * nseg) na)) (take nseg (drop (b * nseg) kd))
             (take nseg (drop (b * nseg) leak)) (take nseg (drop (b * nseg) nn)) k =
          spec_a_v dt cc na kd leak nn (b * nseg + k)"
      by (simp only: spec_a_v_def nb' [OF len(2) k] nb' [OF len(3) k] nb' [OF len(4) k]
          nb' [OF len(6) k])
  qed
  have r: "map (spec_b_v dt (take nseg (drop (b * nseg) v)) (take nseg (drop (b * nseg) na))
             (take nseg (drop (b * nseg) kd)) (take nseg (drop (b * nseg) leak))
             (take nseg (drop (b * nseg) iext))) [0..<nseg] =
           map (\<lambda>k. spec_b_v dt v na kd leak iext (b * nseg + k)) [0..<nseg]"
  proof (rule map_cong [OF refl])
    fix k assume "k \<in> set [0..<nseg]"
    then have k: "k < nseg" by simp
    show "spec_b_v dt (take nseg (drop (b * nseg) v)) (take nseg (drop (b * nseg) na))
             (take nseg (drop (b * nseg) kd)) (take nseg (drop (b * nseg) leak))
             (take nseg (drop (b * nseg) iext)) k =
          spec_b_v dt v na kd leak iext (b * nseg + k)"
      by (simp only: spec_b_v_def nb' [OF len(1) k] nb' [OF len(2) k] nb' [OF len(3) k]
          nb' [OF len(4) k] nb' [OF len(5) k])
  qed
  show ?thesis
    unfolding sl [OF len(1)] sl [OF len(2)] sl [OF len(3)] sl [OF len(4)] sl [OF len(5)]
      sl [OF len(6)]
    by (subst define_tridiag_for_branch_same_length [where n = nseg])
       (simp_all only: lb len n1 a r)
qed

lemma define_all_tridiags_wellformed:
  assumes len: "length v = nb * nseg" "length na = nb * nseg" "length kd = nb * nseg"
      "length leak = nb * nseg" "length iext = nb * nseg" "length nn = nb * nseg"
  shows "define_all_tridiags v na kd leak iext nn (int nseg) (int nb) dt cc =
     Inr (map (\<lambda>b. replicate (nseg - 1) (- dt * cc)) [0..<nb],
          map (\<lambda>b. map (\<lambda>k. spec_a_v dt cc na kd leak nn (b * nseg + k)) [0..<nseg]) [0..<nb],
          map (\<lambda>b. replicate (nseg - 1) (- dt * cc)) [0..<nb],
          map (\<lambda>b. map (\<lambda>k. spec_b_v dt v na kd leak iext (b * nseg + k)) [0..<nseg]) [0..<nb])"
proof -
  let ?body = "\<lambda>b. let l_ind = b * int nseg; u_ind = (b + 1) * int nseg
                in define_tridiag_for_branch (py_slice v l_ind u_ind) (py_slice na l_ind u_ind)
                     (py_slice kd l_ind u_ind) (py_slice leak l_ind u_ind)
                     (py_slice iext l_ind u_ind) dt (py_slice nn l_ind u_ind) cc (int nseg)"
  let ?f = "\<lambda>bi. (replicate (nseg - 1) (- dt * cc),
                 map (\<lambda>k. spec_a_v dt cc na kd leak nn (nat bi * nseg + k)) [0..<nseg],
                 replicate (nseg - 1) (- dt * cc),
                 map (\<lambda>k. spec_b_v dt v na kd leak iext (nat bi * nseg + k)) [0..<nseg])"
  have body: "?body bi = Inr (?f bi)" if "bi \<in> set (py_range (int nb))" for bi
  proof -
    from that obtain b where b: "bi = int b" "b < nb" by (auto simp: py_range_def)
    show ?thesis
      unfolding b(1) Let_def nat_int
      by (rule branch_system [OF len b(2)])
  qed
  have loop: "branch_loop ?body (py_range (int nb)) ([], [], [], []) =
      Inr (map (\<lambda>b. replicate (nseg - 1) (- dt * cc)) [0..<nb],
           map (\<lambda>b. map (\<lambda>k. spec_a_v dt cc na kd leak nn (b * nseg + k)) [0..<nseg]) [0..<nb],
           map (\<lambda>b. replicate (nseg - 1) (- dt * cc)) [0..<nb],
           map (\<lambda>b. map (\<lambda>k. spec_b_v dt v na kd leak iext (b * nseg + k)) [0..<nseg]) [0..<nb])"
    by (subst branch_loop_all_Inr [where f = ?f, OF body])
       (simp_all add: py_range_def comp_def)
  have a1: "asarray (map (\<lambda>b. replicate (nseg - 1) (- dt * cc)) [0..<nb]) =
      Inr (map (\<lambda>b. replicate (nseg - 1) (- dt * cc)) [0..<nb])"
    by (rule asarray_uniform [where n = "nseg - 1"]) auto
  have a2: "asarray (map (\<lambda>b. map (g b) [0..<nseg]) [0..<nb]) =
      Inr (map (\<lambda>b. map (g b) [0..<nseg]) [0..<nb])" for g :: "nat \<Rightarrow> nat \<Rightarrow> real"
    by (rule asarray_uniform [where n = nseg]) auto
  show ?thesis
    unfolding define_all_tridiags_def loop
    by (simp only: and_then_Inr prod.case a1 a2)
qed


lemma concat_blocks:
  "concat (map (\<lambda>b. map (\<lambda>k. f (b * nseg + k)) [0..<nseg]) [0..<nb]) = map f [0..<nb * nseg]"
proof (induction nb)
  case 0
  then show ?case by simp
next
  case (Suc nb)
  have "map (\<lambda>k. f (nb * nseg + k)) [0..<nseg] = map f (map (\<lambda>k. k + nb * nseg) [0..<nseg])"
    by (simp add: comp_def add.commute)
  also have "map (\<lambda>k. k + nb * nseg) [0..<nseg] = [nb * nseg..<nseg + nb * nseg]"
    by (simp add: map_add_upt)
  finally have block: "map (\<lambda>k. f (nb * nseg + k)) [0..<nseg] = map f [nb * nseg..<nseg + nb * nseg]" .
  have "[0..<Suc nb * nseg] = [0..<nb * nseg] @ [nb * nseg..<nseg + nb * nseg]"
    using upt_add_eq_append [of 0 "nb * nseg" nseg] by (simp add: add.commute)
  then show ?case using Suc.IH block by simp
qed

text \<open>
  C3. On six input vectors of length \<open>num_branches * nseg_per_branch\<close>,
  \<open>define_all_tridiags\<close> returns one system per branch. In the block of branch \<open>b\<close>
  the diagonal is \<open>1 + dt (na_conds + kd_conds + leak_conds) + dt num_neighbours
  coupling_conds\<close>, the right-hand side is \<open>voltages + dt (50 na_conds - 90 kd_conds
  - 65 leak_conds + i_ext)\<close>, entry by entry on the compartments of the block, and the
  upper and lower off-diagonals have length \<open>nseg_per_branch - 1\<close> with every entry
  \<open>- dt coupling_conds\<close>.
\<close>

theorem define_all_tridiags_coefficients:
  assumes "length voltages = nb * nseg" "length na_conds = nb * nseg"
    "length kd_conds = nb * nseg" "length leak_conds = nb * nseg"
    "length i_ext = nb * nseg" "length num_neighbours = nb * nseg"
  shows "\<exists>lowers diags uppers solves.
     define_all_tridiags voltages na_conds kd_conds leak_conds i_ext num_neighbours
       (int nseg) (int nb) dt coupling_conds = Inr (lowers, diags, uppers, solves) \<and>
     length lowers = nb \<and> length diags = nb \<and> length uppers = nb \<and> length solves = nb \<and>
     (\<forall>b < nb.
        lowers ! b = replicate (nseg - 1) (- dt * coupling_conds) \<and>
        uppers ! b = replicate (nseg - 1) (- dt * coupling_conds) \<and>
        length (diags ! b) = nseg \<and> length (solves ! b) = nseg \<and>
        (\<forall>k < nseg.
           diags ! b ! k =
             1 + dt * (na_conds ! (b * nseg + k) + kd_conds ! (b * nseg + k)
                       + leak_conds ! (b * nseg + k))
               + dt * num_neighbours ! (b * nseg + k) * coupling_conds \<and>
           solves ! b ! k =
             voltages ! (b * nseg + k)
               + dt * (50 * na_conds ! (b * nseg + k) - 90 * kd_conds ! (b * nseg + k)
                       - 65 * leak_conds ! (b * nseg + k) + i_ext ! (b * nseg + k))))"
  unfolding define_all_tridiags_wellformed [OF assms]
  by (simp add: spec_a_v_def spec_b_v_def)

text \<open>C3 on two branches of two compartments, read at branch 1.\<close>

theorem define_all_tridiags_coefficients_witness:
  "\<exists>lowers diags uppers solves.
     define_all_tridiags [1, 2, 3, 4] [1, 0, 0, 0] [0, 1, 0, 0] [0, 0, 1, 0] [0, 0, 0, 1]
       [2, 1, 1, 2] 2 2 (1 / 40) 3 = Inr (lowers, diags, uppers, solves) \<and>
     length diags = 2 \<and> lowers ! 1 = [- (3 / 40)] \<and> uppers ! 1 = [- (3 / 40)] \<and>
     diags ! 1 ! 0 = 11 / 10 \<and> diags ! 1 ! 1 = 23 / 20 \<and>
     solves ! 1 ! 0 = 11 / 8 \<and> solves ! 1 ! 1 = 161 / 40"
proof -
  have two: "(2::int) = int 2" by simp
  obtain lowers diags uppers solves where r:
    "define_all_tridiags [1, 2, 3, 4] [1, 0, 0, 0] [0, 1, 0, 0] [0, 0, 1, 0] [0, 0, 0, 1]
       [2, 1, 1, 2] (int 2) (int 2) (1 / 40) 3 = Inr (lowers, diags, uppers, solves)"
    "length diags = 2"
    "\<forall>b < 2.
        lowers ! b = replicate (2 - 1) (- (1 / 40) * 3) \<and>
        uppers ! b = replicate (2 - 1) (- (1 / 40) * 3) \<and>
        length (diags ! b) = 2 \<and> length (solves ! b) = 2 \<and>
        (\<forall>k < 2.
           diags ! b ! k =
             1 + (1 / 40) * ([1, 0, 0, 0] ! (b * 2 + k) + [0, 1, 0, 0] ! (b * 2 + k)
                       + [0, 0, 1, 0] ! (b * 2 + k))
               + (1 / 40) * [2, 1, 1, 2] ! (b * 2 + k) * 3 \<and>
           solves ! b ! k =
             [1, 2, 3, 4] ! (b * 2 + k)
               + (1 / 40) * (50 * [1, 0, 0, 0] ! (b * 2 + k) - 90 * [0, 1, 0, 0] ! (b * 2 + k)
                       - 65 * [0, 0, 1, 0] ! (b * 2 + k) + [0, 0, 0, 1] ! (b * 2 + k)))"
    using define_all_tridiags_coefficients [of "[1, 2, 3, 4]" 2 2 "[1, 0, 0, 0]" "[0, 1, 0, 0]"
        "[0, 0, 1, 0]" "[0, 0, 0, 1]" "[2, 1, 1, 2]" "1 / 40" 3]
    by auto
  have b1: "lowers ! 1 = replicate (2 - 1) (- (1 / 40) * 3)"
    "uppers ! 1 = replicate (2 - 1) (- (1 / 40) * 3)"
    and k: "\<forall>k < 2.
           diags ! 1 ! k =
             1 + (1 / 40) * ([1, 0, 0, 0] ! (1 * 2 + k) + [0, 1, 0, 0] ! (1 * 2 + k)
                       + [0, 0, 1, 0] ! (1 * 2 + k))
               + (1 / 40) * [2, 1, 1, 2] ! (1 * 2 + k) * 3 \<and>
           solves ! 1 ! k =
             [1, 2, 3, 4] ! (1 * 2 + k)
               + (1 / 40) * (50 * [1, 0, 0, 0] ! (1 * 2 + k) - 90 * [0, 1, 0, 0] ! (1 * 2 + k)
                       - 65 * [0, 0, 1, 0] ! (1 * 2 + k) + [0, 0, 0, 1] ! (1 * 2 + k))"
    using r(3) [rule_format, of 1] by simp_all
  have "diags ! 1 ! 0 = 11 / 10" "solves ! 1 ! 0 = 11 / 8"
    using k [rule_format, of 0] by simp_all
  moreover have "diags ! 1 ! 1 = 23 / 20" "solves ! 1 ! 1 = 161 / 40"
    using k [rule_format, of 1] by (simp_all add: nth_Cons')
  moreover have "lowers ! 1 = [- (3 / 40)]" "uppers ! 1 = [- (3 / 40)]"
    using b1 by simp_all
  ultimately show ?thesis
    using r(1,2) by (simp only: two) blast
qed

text \<open>
  C6. Concatenating the per-branch right-hand sides that \<open>define_all_tridiags\<close>
  returns, in branch order, gives entry for entry the vector \<open>voltages + dt (50
  na_conds - 90 kd_conds - 65 leak_conds + i_ext)\<close> of the unpartitioned inputs, which
  is also the right-hand side the single-branch assembly computes on the unpartitioned
  inputs.
\<close>

theorem define_all_tridiags_rhs_concat:
  assumes "length voltages = nb * nseg" "length na_conds = nb * nseg"
    "length kd_conds = nb * nseg" "length leak_conds = nb * nseg"
    "length i_ext = nb * nseg" "length num_neighbours = nb * nseg"
  shows "\<exists>lowers diags uppers solves lower a_v upper b_v.
     define_all_tridiags voltages na_conds kd_conds leak_conds i_ext num_neighbours
       (int nseg) (int nb) dt coupling_conds = Inr (lowers, diags, uppers, solves) \<and>
     concat solves =
       map (\<lambda>i. voltages ! i + dt * (50 * na_conds ! i - 90 * kd_conds ! i
                                     - 65 * leak_conds ! i + i_ext ! i)) [0..<nb * nseg] \<and>
     define_tridiag_for_branch voltages na_conds kd_conds leak_conds i_ext dt num_neighbours
       coupling_conds (int nseg) = Inr (lower, a_v, upper, b_v) \<and>
     concat solves = b_v"
proof -
  have "concat (map (\<lambda>b. map (\<lambda>k. spec_b_v dt voltages na_conds kd_conds leak_conds i_ext
            (b * nseg + k)) [0..<nseg]) [0..<nb]) =
        map (spec_b_v dt voltages na_conds kd_conds leak_conds i_ext) [0..<nb * nseg]"
    by (rule concat_blocks)
  moreover have "map (spec_b_v dt voltages na_conds kd_conds leak_conds i_ext) [0..<nb * nseg] =
        map (\<lambda>i. voltages ! i + dt * (50 * na_conds ! i - 90 * kd_conds ! i
                                     - 65 * leak_conds ! i + i_ext ! i)) [0..<nb * nseg]"
    by (simp add: spec_b_v_def)
  ultimately show ?thesis
    unfolding define_all_tridiags_wellformed [OF assms]
      define_tridiag_for_branch_same_length [OF assms(2,3,4,5,6,1)]
    by simp
qed

text \<open>C6 on two branches of two compartments.\<close>

theorem define_all_tridiags_rhs_concat_witness:
  "\<exists>lowers diags uppers solves.
     define_all_tridiags [1, 2, 3, 4] [1, 0, 0, 0] [0, 1, 0, 0] [0, 0, 1, 0] [0, 0, 0, 1]
       [2, 1, 1, 2] 2 2 (1 / 40) 3 = Inr (lowers, diags, uppers, solves) \<and>
     concat solves = [9 / 4, - (1 / 4), 11 / 8, 161 / 40]"
proof -
  have two: "(2::int) = int 2" by simp
  have four: "[0..<2 * 2] = [0, 1, 2, 3]" by (simp add: upt_rec)
  show ?thesis
    using define_all_tridiags_rhs_concat [of "[1, 2, 3, 4]" 2 2 "[1, 0, 0, 0]" "[0, 1, 0, 0]"
        "[0, 0, 1, 0]" "[0, 0, 0, 1]" "[2, 1, 1, 2]" "1 / 40" 3]
    unfolding four two
    by auto
qed

section \<open>Properties of strided slices and stacked columns\<close>

lemma globals_overwritten:
  "g\<lparr>NUM_BRANCHES := a, NSEG_PER_BRANCH := b\<rparr> = \<lparr>NUM_BRANCHES = a, NSEG_PER_BRANCH = b\<rparr>"
  by (cases g) simp

lemma length_strided:
  "j < n \<Longrightarrow> length x = n * N \<Longrightarrow> length (strided x j n) = N"
proof -
  assume j: "j < n" and len: "length x = n * N"
  have e: "n * N + n - 1 - j = N * n + (n - 1 - j)" using j by (simp add: algebra_simps)
  have "n - 1 - j < n" using j by simp
  then have "(N * n + (n - 1 - j)) div n = N" by simp
  then have "(n * N + n - 1 - j) div n = N" by (simp only: e)
  then show ?thesis by (simp add: strided_def len)
qed

lemma nth_strided:
  "j < n \<Longrightarrow> length x = n * N \<Longrightarrow> k < N \<Longrightarrow> strided x j n ! k = x ! (n * k + j)"
  using length_strided [of j n x N]
  by (simp add: strided_def add.commute mult.commute)

lemma strided_eq:
  "j < n \<Longrightarrow> length x = n * N \<Longrightarrow> strided x j n = map (\<lambda>k. x ! (n * k + j)) [0..<N]"
  by (rule nth_equalityI) (simp_all add: length_strided nth_strided)

lemma column_stack4_same_length:
  "length b = length a \<Longrightarrow> length c = length a \<Longrightarrow> length d = length a \<Longrightarrow>
   column_stack4 a b c d = Inr (map (\<lambda>i. [a ! i, b ! i, c ! i, d ! i]) [0..<length a])"
  by (simp add: column_stack4_def)

lemma length_concat_rows4:
  "length (concat (map (\<lambda>i. [f i, g i, h i, l i]) [0..<N])) = 4 * N"
  by (induction N) simp_all

lemma nth_concat_rows4:
  "k < N \<Longrightarrow>
   concat (map (\<lambda>i. [f i, g i, h i, l i]) [0..<N]) ! (4 * k) = f k \<and>
   concat (map (\<lambda>i. [f i, g i, h i, l i]) [0..<N]) ! (4 * k + 1) = g k \<and>
   concat (map (\<lambda>i. [f i, g i, h i, l i]) [0..<N]) ! (4 * k + 2) = h k \<and>
   concat (map (\<lambda>i. [f i, g i, h i, l i]) [0..<N]) ! (4 * k + 3) = l k"
proof (induction N)
  case 0
  then show ?case by simp
next
  case (Suc N)
  let ?c = "concat (map (\<lambda>i. [f i, g i, h i, l i]) [0..<N])"
  have len: "length ?c = 4 * N" by (rule length_concat_rows4)
  show ?case
  proof (cases "k < N")
    case True
    then have "4 * k + 3 < length ?c" using len by simp
    then show ?thesis using Suc.IH [OF True] by (simp add: nth_append)
  next
    case False
    then have "k = N" using Suc.prems by simp
    then show ?thesis using len by (simp add: nth_append)
  qed
qed

section \<open>Properties of one step\<close>

lemma conductances_of_incoming_state:
  assumes "length u = 4 * N" "length params = 3 * N"
  shows "and_then (vmul (strided params 0 3) (vpow (strided u 1 4) 3))
           (\<lambda>p1. and_then (vmul p1 (strided u 2 4)) f) = f (spec_na_conds N u params)"
    and "and_then (vmul (strided params 1 3) (vpow (strided u 3 4) 4)) f' =
           f' (spec_kd_conds N u params)"
    and "strided params 2 3 = spec_leak_conds N params"
proof -
  have p0: "strided params 0 3 = map (\<lambda>k. params ! (3 * k)) [0..<N]"
    using strided_eq [of 0 3 params N] assms(2) by simp
  have p1: "strided params 1 3 = map (\<lambda>k. params ! (3 * k + 1)) [0..<N]"
    using strided_eq [of 1 3 params N] assms(2) by simp
  have ms: "strided u 1 4 = map (\<lambda>k. u ! (4 * k + 1)) [0..<N]"
    using strided_eq [of 1 4 u N] assms(1) by simp
  have hs: "strided u 2 4 = map (\<lambda>k. u ! (4 * k + 2)) [0..<N]"
    using strided_eq [of 2 4 u N] assms(1) by simp
  have ns: "strided u 3 4 = map (\<lambda>k. u ! (4 * k + 3)) [0..<N]"
    using strided_eq [of 3 4 u N] assms(1) by simp
  have a: "vmul (strided params 0 3) (vpow (strided u 1 4) 3) =
      Inr (map (\<lambda>k. params ! (3 * k) * (u ! (4 * k + 1)) ^ 3) [0..<N])"
    unfolding p0 ms vpow_def by (subst vmul_same_length) simp_all
  have b: "vmul (map (\<lambda>k. params ! (3 * k) * (u ! (4 * k + 1)) ^ 3) [0..<N]) (strided u 2 4) =
      Inr (spec_na_conds N u params)"
    unfolding hs spec_na_conds_def by (subst vmul_same_length) simp_all
  show "and_then (vmul (strided params 0 3) (vpow (strided u 1 4) 3))
           (\<lambda>p1. and_then (vmul p1 (strided u 2 4)) f) = f (spec_na_conds N u params)"
    by (simp only: a b and_then_Inr)
  have c: "vmul (strided params 1 3) (vpow (strided u 3 4) 4) = Inr (spec_kd_conds N u params)"
    unfolding p1 ns vpow_def spec_kd_conds_def by (subst vmul_same_length) simp_all
  show "and_then (vmul (strided params 1 3) (vpow (strided u 3 4) 4)) f' =
           f' (spec_kd_conds N u params)"
    by (simp only: c and_then_Inr)
  show "strided params 2 3 = spec_leak_conds N params"
    using strided_eq [of 2 3 params N] assms(2) by (simp add: spec_leak_conds_def)
qed

text \<open>
  C7. In \<open>find_root\<close> the three conductance vectors are computed from the incoming
  state \<open>u\<close> and from \<open>params\<close>, not from the updated gates, and these are the
  vectors the assembly is called with: sodium \<open>params[0::3] m\<^sup>3 h\<close>, potassium
  \<open>params[1::3] n\<^sup>4\<close>, leak \<open>params[2::3]\<close>, with \<open>m\<close>, \<open>h\<close>, \<open>n\<close> the
  stride-4 slices of \<open>u\<close> (entry \<open>k\<close> of them is \<open>u[4 k + 1]\<close>, \<open>u[4 k + 2]\<close>,
  \<open>u[4 k + 3]\<close>). For a state of \<open>N\<close> compartments and imported gate and stimulus
  functions that return, the step is the assembly called on the voltages \<open>u[4 k]\<close>, on
  these three vectors and on the current of the stimulus, followed by the solver, the
  concatenation of its result and the interleaving with the updated gates \<open>new_m\<close>,
  \<open>new_h\<close>, \<open>new_n\<close>, which enter the result only there.
\<close>

theorem find_root_hands_conductances_to_assembly:
  assumes len: "length u = 4 * N" "length params = 3 * N"
    and m: "imp_m_gate imp (strided u 0 4) = Inr (am, bm)"
      "imp_solve_gate_implicit imp (strided u 1 4) dt am bm = Inr new_m"
    and h: "imp_h_gate imp (strided u 0 4) = Inr (ah, bh)"
      "imp_solve_gate_implicit imp (strided u 2 4) dt ah bh = Inr new_h"
    and n: "imp_n_gate imp (strided u 0 4) = Inr (an, bn)"
      "imp_solve_gate_implicit imp (strided u 3 4) dt an bn = Inr new_n"
    and stim: "imp_get_external_input imp (strided u 0 4) t i_delay i_dur i_amp r len
        (NSEG_PER_BRANCH g) = Inr i_ext"
  shows "find_root imp g t u params i_delay i_amp i_dur dt r len nn cc levels parents =
     and_then
       (imp_define_all_tridiags imp
          (map (\<lambda>k. u ! (4 * k)) [0..<N])
          (map (\<lambda>k. params ! (3 * k) * (u ! (4 * k + 1)) ^ 3 * u ! (4 * k + 2)) [0..<N])
          (map (\<lambda>k. params ! (3 * k + 1) * (u ! (4 * k + 3)) ^ 4) [0..<N])
          (map (\<lambda>k. params ! (3 * k + 2)) [0..<N])
          i_ext nn (NSEG_PER_BRANCH g) (NUM_BRANCHES g) dt cc)
       (\<lambda>(lowers, diags, uppers, solves).
          and_then (imp_solve_branched imp levels parents lowers diags uppers solves
                      (- dt * cc)) (\<lambda>solves.
          and_then (concatenate solves) (\<lambda>new_v.
          and_then (column_stack4 new_v new_m new_h new_n) (\<lambda>stacked.
            Inr (ravel stacked)))))"
proof -
  have v: "strided u 0 4 = map (\<lambda>k. u ! (4 * k)) [0..<N]"
    using strided_eq [of 0 4 u N] len(1) by simp
  show ?thesis
    unfolding find_root_def Let_def
    by (simp only: m h n stim and_then_Inr prod.case conductances_of_incoming_state [OF len])
       (simp only: v spec_na_conds_def spec_kd_conds_def spec_leak_conds_def)
qed

text \<open>C7 on the stand-in cell with four compartments: the assembly is called with the
  conductances \<open>[1/32, 0, 0, 10/81]\<close>, \<open>[1/2048, 5/16, 0, 11/81]\<close> and
  \<open>[3, 6, 9, 12]\<close> of the incoming state.\<close>

theorem find_root_hands_conductances_to_assembly_witness:
  "find_root demo_imported \<lparr>NUM_BRANCHES = 2, NSEG_PER_BRANCH = 2\<rparr> 0 demo_u
     [1, 2, 3, 4, 5, 6, 7, 8, 9, 10, 11, 12] 5 0 10 (1 / 40) 1 1 [2, 1, 1, 2] 0 [[0], [1]] [- 1, 0] =
   and_then
     (define_all_tridiags [- 65, - 70, - 60, - 55] [1 / 32, 0, 0, 10 / 81]
        [1 / 2048, 5 / 16, 0, 11 / 81] [3, 6, 9, 12] [0, 0, 0, 0] [2, 1, 1, 2] 2 2 (1 / 40) 0)
     (\<lambda>(lowers, diags, uppers, solves).
        and_then (imp_solve_branched demo_imported [[0], [1]] [- 1, 0] lowers diags uppers solves
                    (- (1 / 40) * 0)) (\<lambda>solves.
        and_then (concatenate solves) (\<lambda>new_v.
        and_then (column_stack4 new_v [1 / 2, 0, 1, 1 / 3] [1 / 4, 1, 0, 1 / 3]
                    [1 / 8, 1 / 2, 0, 1 / 3]) (\<lambda>stacked.
          Inr (ravel stacked)))))"
proof -
  let ?g = "\<lparr>NUM_BRANCHES = 2, NSEG_PER_BRANCH = 2\<rparr>"
  let ?p = "[1, 2, 3, 4, 5, 6, 7, 8, 9, 10, 11, 12] :: vec"
  let ?v = "strided demo_u 0 4"
  have len: "length demo_u = 4 * 4" "length ?p = 3 * 4"
    by (simp_all add: demo_u_def)
  have v: "?v = [- 65, - 70, - 60, - 55]" by code_simp
  have ms: "strided demo_u 1 4 = [1 / 2, 0, 1, 1 / 3]" by code_simp
  have hs: "strided demo_u 2 4 = [1 / 4, 1, 0, 1 / 3]" by code_simp
  have ns: "strided demo_u 3 4 = [1 / 8, 1 / 2, 0, 1 / 3]" by code_simp
  have m: "imp_m_gate demo_imported ?v = Inr (zeros_like ?v, zeros_like ?v)"
    "imp_solve_gate_implicit demo_imported (strided demo_u 1 4) (1 / 40) (zeros_like ?v)
       (zeros_like ?v) = Inr (strided demo_u 1 4)"
    by (simp_all add: demo_imported_def)
  have h: "imp_h_gate demo_imported ?v = Inr (zeros_like ?v, zeros_like ?v)"
    "imp_solve_gate_implicit demo_imported (strided demo_u 2 4) (1 / 40) (zeros_like ?v)
       (zeros_like ?v) = Inr (strided demo_u 2 4)"
    by (simp_all add: demo_imported_def)
  have n: "imp_n_gate demo_imported ?v = Inr (zeros_like ?v, zeros_like ?v)"
    "imp_solve_gate_implicit demo_imported (strided demo_u 3 4) (1 / 40) (zeros_like ?v)
       (zeros_like ?v) = Inr (strided demo_u 3 4)"
    by (simp_all add: demo_imported_def)
  have stim: "imp_get_external_input demo_imported ?v 0 5 10 0 1 1 (NSEG_PER_BRANCH ?g) =
      Inr [0, 0, 0, 0]"
    unfolding v by (simp add: demo_imported_def get_external_input_returns)
  have na: "map (\<lambda>k. ?p ! (3 * k) * (demo_u ! (4 * k + 1)) ^ 3 * demo_u ! (4 * k + 2)) [0..<4] =
      [1 / 32, 0, 0, 10 / 81]"
    by code_simp
  have kd: "map (\<lambda>k. ?p ! (3 * k + 1) * (demo_u ! (4 * k + 3)) ^ 4) [0..<4] =
      [1 / 2048, 5 / 16, 0, 11 / 81]"
    by code_simp
  have leak: "map (\<lambda>k. ?p ! (3 * k + 2)) [0..<4] = [3, 6, 9, 12]"
    by code_simp
  have vv: "map (\<lambda>k. demo_u ! (4 * k)) [0..<4] = [- 65, - 70, - 60, - 55]"
    by code_simp
  have asm: "imp_define_all_tridiags demo_imported = define_all_tridiags"
    by (simp add: demo_imported_def)
  have sizes: "NSEG_PER_BRANCH ?g = 2" "NUM_BRANCHES ?g = 2" by simp_all
  show ?thesis
    using find_root_hands_conductances_to_assembly [OF len m h n stim,
        of "[2, 1, 1, 2]" 0 "[[0], [1]]" "[- 1, 0]"]
    by (simp only: na kd leak vv asm sizes ms hs ns)
qed
lemma tridiag_apply_identity:
  "tridiag_apply (replicate (length x - 1) 0) (replicate (length x) 1)
     (replicate (length x - 1) 0) x = x"
  by (rule nth_equalityI) (auto simp: tridiag_apply_def)

lemma zero_conductance_assembly:
  assumes "length v = nb * nseg" "length nn = nb * nseg" "length i_ext = nb * nseg"
  shows "define_all_tridiags v (replicate (nb * nseg) 0) (replicate (nb * nseg) 0)
           (replicate (nb * nseg) 0) i_ext nn (int nseg) (int nb) dt 0 =
     Inr (replicate nb (replicate (nseg - 1) 0),
          replicate nb (replicate nseg 1),
          replicate nb (replicate (nseg - 1) 0),
          map (\<lambda>b. map (\<lambda>k. v ! (b * nseg + k) + dt * i_ext ! (b * nseg + k)) [0..<nseg])
            [0..<nb])"
proof -
  have in_range: "b * nseg + k < nb * nseg" if "b < nb" "k < nseg" for b k
  proof -
    have "b * nseg + k < b * nseg + nseg" using that(2) by simp
    also have "\<dots> = (b + 1) * nseg" by simp
    also have "\<dots> \<le> nb * nseg" using that(1) by (intro mult_le_mono1) simp
    finally show ?thesis .
  qed
  have a: "map (\<lambda>b. map (\<lambda>k. spec_a_v dt 0 (replicate (nb * nseg) 0) (replicate (nb * nseg) 0)
              (replicate (nb * nseg) 0) nn (b * nseg + k)) [0..<nseg]) [0..<nb] =
           replicate nb (replicate nseg 1)"
    by (intro nth_equalityI) (simp_all add: spec_a_v_def in_range)
  have r: "map (\<lambda>b. map (\<lambda>k. spec_b_v dt v (replicate (nb * nseg) 0) (replicate (nb * nseg) 0)
              (replicate (nb * nseg) 0) i_ext (b * nseg + k)) [0..<nseg])
              [0..<nb] =
           map (\<lambda>b. map (\<lambda>k. v ! (b * nseg + k) + dt * i_ext ! (b * nseg + k)) [0..<nseg])
             [0..<nb]"
    by (intro nth_equalityI) (simp_all add: spec_b_v_def in_range)
  have z: "map (\<lambda>b. replicate (nseg - 1) (- dt * 0)) [0..<nb] = replicate nb (replicate (nseg - 1) 0)"
    by (intro nth_equalityI) simp_all
  show ?thesis
    by (subst define_all_tridiags_wellformed [where nb = nb and nseg = nseg])
       (simp_all only: assms length_replicate a r z)
qed

lemma identity_assembly:
  assumes "length v = nb * nseg" "length nn = nb * nseg"
  shows "define_all_tridiags v (replicate (nb * nseg) 0) (replicate (nb * nseg) 0)
           (replicate (nb * nseg) 0) (replicate (nb * nseg) 0) nn (int nseg) (int nb) dt 0 =
     Inr (replicate nb (replicate (nseg - 1) 0),
          replicate nb (replicate nseg 1),
          replicate nb (replicate (nseg - 1) 0),
          map (\<lambda>b. map (\<lambda>k. v ! (b * nseg + k)) [0..<nseg]) [0..<nb])"
proof -
  have in_range: "b * nseg + k < nb * nseg" if "b < nb" "k < nseg" for b k
  proof -
    have "b * nseg + k < b * nseg + nseg" using that(2) by simp
    also have "\<dots> = (b + 1) * nseg" by simp
    also have "\<dots> \<le> nb * nseg" using that(1) by (intro mult_le_mono1) simp
    finally show ?thesis .
  qed
  have r: "map (\<lambda>b. map (\<lambda>k. v ! (b * nseg + k) + dt * replicate (nb * nseg) 0 ! (b * nseg + k))
              [0..<nseg]) [0..<nb] =
           map (\<lambda>b. map (\<lambda>k. v ! (b * nseg + k)) [0..<nseg]) [0..<nb]"
    by (intro nth_equalityI) (simp_all add: in_range)
  show ?thesis
    using zero_conductance_assembly [OF assms, of "replicate (nb * nseg) 0" dt]
    by (simp only: r length_replicate simp_thms)
qed

lemma exact_on_identity:
  assumes "solve_branched_exact solver levels parents
             (replicate nb (replicate (nseg - 1) 0)) (replicate nb (replicate nseg 1))
             (replicate nb (replicate (nseg - 1) 0)) solves"
    and "length solves = nb" "\<And>b. b < nb \<Longrightarrow> length (solves ! b) = nseg"
  shows "solver levels parents
             (replicate nb (replicate (nseg - 1) 0)) (replicate nb (replicate nseg 1))
             (replicate nb (replicate (nseg - 1) 0)) solves 0 = Inr solves"
proof -
  obtain xs where xs: "solver levels parents
             (replicate nb (replicate (nseg - 1) 0)) (replicate nb (replicate nseg 1))
             (replicate nb (replicate (nseg - 1) 0)) solves 0 = Inr xs"
      "length xs = nb"
      "\<And>b. b < nb \<Longrightarrow> length (xs ! b) = nseg \<and>
          tridiag_apply (replicate (nseg - 1) 0) (replicate nseg 1) (replicate (nseg - 1) 0)
            (xs ! b) = solves ! b"
    using assms
    by (auto simp: solve_branched_exact_def list_all_iff split: sum.splits)
  have "xs ! b = solves ! b" if "b < nb" for b
    using xs(3) [OF that] tridiag_apply_identity [of "xs ! b"] by simp
  then have "xs = solves" using xs(2) assms(2) by (intro nth_equalityI) simp_all
  then show ?thesis using xs(1) by simp
qed

lemma find_root_zero_conductance:
  assumes len: "length u = 4 * (nb * nseg)" "length params = 3 * (nb * nseg)"
      "length nn = nb * nseg" "length i_ext = nb * nseg"
    and nb: "1 \<le> nb"
    and g: "NUM_BRANCHES g = int nb" "NSEG_PER_BRANCH g = int nseg"
    and asm: "imp_define_all_tridiags imp = define_all_tridiags"
    and zero: "spec_na_conds (nb * nseg) u params = replicate (nb * nseg) 0"
      "spec_kd_conds (nb * nseg) u params = replicate (nb * nseg) 0"
      "spec_leak_conds (nb * nseg) params = replicate (nb * nseg) 0"
    and current: "imp_get_external_input imp (strided u 0 4) t i_delay i_dur i_amp r len
        (int nseg) = Inr i_ext"
    and m: "imp_m_gate imp (strided u 0 4) = Inr (am, bm)"
      "imp_solve_gate_implicit imp (strided u 1 4) dt am bm = Inr new_m"
      "length new_m = nb * nseg"
    and h: "imp_h_gate imp (strided u 0 4) = Inr (ah, bh)"
      "imp_solve_gate_implicit imp (strided u 2 4) dt ah bh = Inr new_h"
      "length new_h = nb * nseg"
    and n: "imp_n_gate imp (strided u 0 4) = Inr (an, bn)"
      "imp_solve_gate_implicit imp (strided u 3 4) dt an bn = Inr new_n"
      "length new_n = nb * nseg"
    and solver: "case define_all_tridiags (strided u 0 4) (replicate (nb * nseg) 0)
          (replicate (nb * nseg) 0) (replicate (nb * nseg) 0) i_ext nn
          (int nseg) (int nb) dt 0 of
        Inl e \<Rightarrow> True
      | Inr (lowers, diags, uppers, solves) \<Rightarrow>
          solve_branched_exact (imp_solve_branched imp) levels parents lowers diags uppers solves"
  shows "find_root imp g t u params i_delay i_amp i_dur dt r len nn 0 levels parents =
     Inr (concat (map (\<lambda>i. [u ! (4 * i) + dt * i_ext ! i, new_m ! i, new_h ! i, new_n ! i])
            [0..<nb * nseg]))"
proof -
  let ?N = "nb * nseg"
  let ?v = "strided u 0 4"
  let ?w = "\<lambda>i. ?v ! i + dt * i_ext ! i"
  let ?S = "map (\<lambda>b. map (\<lambda>k. ?w (b * nseg + k)) [0..<nseg]) [0..<nb]"
  let ?L = "replicate nb (replicate (nseg - 1) (0::real))"
  let ?D = "replicate nb (replicate nseg (1::real))"
  have lv: "length ?v = ?N" using len(1) by (intro length_strided) simp_all
  have assembly: "define_all_tridiags ?v (replicate ?N 0) (replicate ?N 0) (replicate ?N 0)
      i_ext nn (int nseg) (int nb) dt 0 = Inr (?L, ?D, ?L, ?S)"
    using lv len(3,4) by (rule zero_conductance_assembly)
  have "solve_branched_exact (imp_solve_branched imp) levels parents ?L ?D ?L ?S"
    using solver unfolding assembly by simp
  then have solved: "imp_solve_branched imp levels parents ?L ?D ?L ?S 0 = Inr ?S"
    by (rule exact_on_identity) simp_all
  have "?S \<noteq> []" using nb by simp
  then have cat: "concatenate ?S = Inr (concat ?S)" by (simp add: concatenate_def)
  have cv: "concat ?S = map ?w [0..<?N]" by (rule concat_blocks)
  have stack: "column_stack4 (map ?w [0..<?N]) new_m new_h new_n =
      Inr (map (\<lambda>i. [map ?w [0..<?N] ! i, new_m ! i, new_h ! i, new_n ! i]) [0..<?N])"
    using m(3) h(3) n(3) column_stack4_same_length [of new_m "map ?w [0..<?N]" new_h new_n]
    by simp
  have rows: "map (\<lambda>i. [map ?w [0..<?N] ! i, new_m ! i, new_h ! i, new_n ! i]) [0..<?N] =
      map (\<lambda>i. [u ! (4 * i) + dt * i_ext ! i, new_m ! i, new_h ! i, new_n ! i]) [0..<?N]"
    using nth_strided [of 0 4 u ?N] len(1) by (intro map_cong) simp_all
  have zero_term: "- dt * 0 = 0" by simp
  show ?thesis
    unfolding find_root_def Let_def
    by (simp only: m h n and_then_Inr prod.case conductances_of_incoming_state [OF len(1,2)]
        zero g current asm assembly zero_term solved cat cv stack rows ravel_def)
qed


text \<open>
  C8. Take a state of \<open>num_branches \<ge> 1\<close> branches whose sodium, potassium and leak
  conductances are all zero, a stimulus that injects no current, a coupling conductance
  of zero, the assembly of vectorfield.py as the imported assembly, gate functions that
  return vectors of the right length, and a solver that is exact on the systems it is
  handed. Then every assembled system is the identity (diagonals of ones, off-diagonals
  of zeros, right-hand sides the voltages of the branch), the step returns, and the
  voltage of every compartment is the one before the step, for any \<open>dt\<close>.
\<close>

theorem zero_conductance_step_keeps_voltages:
  assumes len: "length u = 4 * (nb * nseg)" "length params = 3 * (nb * nseg)"
      "length num_neighbours = nb * nseg"
    and nb: "1 \<le> nb"
    and g: "NUM_BRANCHES g = int nb" "NSEG_PER_BRANCH g = int nseg"
    and asm: "imp_define_all_tridiags imp = define_all_tridiags"
    and zero: "spec_na_conds (nb * nseg) u params = replicate (nb * nseg) 0"
      "spec_kd_conds (nb * nseg) u params = replicate (nb * nseg) 0"
      "spec_leak_conds (nb * nseg) params = replicate (nb * nseg) 0"
    and no_current: "imp_get_external_input imp (strided u 0 4) t i_delay i_dur i_amp r len
        (int nseg) = Inr (replicate (nb * nseg) 0)"
    and m: "imp_m_gate imp (strided u 0 4) = Inr (am, bm)"
      "imp_solve_gate_implicit imp (strided u 1 4) dt am bm = Inr new_m"
      "length new_m = nb * nseg"
    and h: "imp_h_gate imp (strided u 0 4) = Inr (ah, bh)"
      "imp_solve_gate_implicit imp (strided u 2 4) dt ah bh = Inr new_h"
      "length new_h = nb * nseg"
    and n: "imp_n_gate imp (strided u 0 4) = Inr (an, bn)"
      "imp_solve_gate_implicit imp (strided u 3 4) dt an bn = Inr new_n"
      "length new_n = nb * nseg"
    and solver: "case define_all_tridiags (strided u 0 4) (replicate (nb * nseg) 0)
          (replicate (nb * nseg) 0) (replicate (nb * nseg) 0) (replicate (nb * nseg) 0)
          num_neighbours (int nseg) (int nb) dt 0 of
        Inl e \<Rightarrow> True
      | Inr (lowers, diags, uppers, solves) \<Rightarrow>
          solve_branched_exact (imp_solve_branched imp) levels parents lowers diags uppers solves"
  shows "\<exists>lowers diags uppers solves u'.
     define_all_tridiags (strided u 0 4) (replicate (nb * nseg) 0) (replicate (nb * nseg) 0)
       (replicate (nb * nseg) 0) (replicate (nb * nseg) 0) num_neighbours (int nseg) (int nb)
       dt 0 = Inr (lowers, diags, uppers, solves) \<and>
     lowers = replicate nb (replicate (nseg - 1) 0) \<and>
     diags = replicate nb (replicate nseg 1) \<and>
     uppers = replicate nb (replicate (nseg - 1) 0) \<and>
     concat solves = strided u 0 4 \<and>
     find_root imp g t u params i_delay i_amp i_dur dt r len num_neighbours 0 levels parents =
       Inr u' \<and>
     length u' = length u \<and>
     (\<forall>k < nb * nseg. u' ! (4 * k) = u ! (4 * k))"
proof -
  let ?N = "nb * nseg"
  let ?v = "strided u 0 4"
  let ?S = "map (\<lambda>b. map (\<lambda>k. ?v ! (b * nseg + k)) [0..<nseg]) [0..<nb]"
  let ?u' = "concat (map (\<lambda>i. [u ! (4 * i) + dt * replicate ?N 0 ! i, new_m ! i, new_h ! i,
      new_n ! i]) [0..<?N])"
  have lv: "length ?v = ?N" using len(1) by (intro length_strided) simp_all
  have assembly: "define_all_tridiags ?v (replicate ?N 0) (replicate ?N 0) (replicate ?N 0)
      (replicate ?N 0) num_neighbours (int nseg) (int nb) dt 0 =
      Inr (replicate nb (replicate (nseg - 1) 0), replicate nb (replicate nseg 1),
           replicate nb (replicate (nseg - 1) 0), ?S)"
    using lv len(3) by (rule identity_assembly)
  have "concat ?S = map (\<lambda>i. ?v ! i) [0..<?N]" by (rule concat_blocks)
  also have "\<dots> = ?v" using map_nth [of ?v] by (simp only: lv)
  finally have cv: "concat ?S = ?v" .
  have step: "find_root imp g t u params i_delay i_amp i_dur dt r len num_neighbours 0 levels
      parents = Inr ?u'"
    by (rule find_root_zero_conductance [OF len _ nb g asm zero no_current m h n solver]) simp
  have lu: "length ?u' = length u" by (simp only: length_concat_rows4 len(1))
  have keep: "?u' ! (4 * k) = u ! (4 * k)" if "k < ?N" for k
    using nth_concat_rows4 [OF that, of "\<lambda>i. u ! (4 * i) + dt * replicate ?N 0 ! i"] that
    by simp
  show ?thesis
    using assembly cv step lu keep by blast
qed

lemma at_set_zero_on_zeros: "at_set (replicate n (0::real)) i 0 = replicate n 0"
  by (intro nth_equalityI) (auto simp: at_set_def Let_def nth_list_update)

lemma demo_solver_exact_on_identity:
  assumes "length solves = nb" "\<And>b. b < nb \<Longrightarrow> length (solves ! b) = nseg"
  shows "solve_branched_exact (imp_solve_branched demo_imported) levels parents
           (replicate nb (replicate (nseg - 1) 0)) (replicate nb (replicate nseg 1))
           (replicate nb (replicate (nseg - 1) 0)) solves"
proof -
  have "tridiag_apply (replicate (nseg - 1) 0) (replicate nseg 1) (replicate (nseg - 1) 0)
      (solves ! b) = solves ! b" if "b < nb" for b
    using tridiag_apply_identity [of "solves ! b"] assms(2) [OF that] by simp
  then show ?thesis
    using assms by (simp add: solve_branched_exact_def demo_imported_def list_all_iff)
qed

lemma interleave_rows:
  assumes "length u = 4 * N"
  shows "concat (map (\<lambda>i. [u ! (4 * i), u ! (4 * i + 1), u ! (4 * i + 2), u ! (4 * i + 3)])
           [0..<N]) = u"
proof -
  let ?c = "concat (map (\<lambda>i. [u ! (4 * i), u ! (4 * i + 1), u ! (4 * i + 2), u ! (4 * i + 3)])
      [0..<N])"
  have lc: "length ?c = 4 * N" by (rule length_concat_rows4)
  show "?c = u"
  proof (rule nth_equalityI)
    show "length ?c = length u" using lc assms by simp
  next
    fix j assume "j < length ?c"
    then have jN: "j < 4 * N" using lc by simp
    define q where "q = j div 4"
    define r where "r = j mod 4"
    have j: "j = 4 * q + r" unfolding q_def r_def by simp
    have q: "q < N" using jN unfolding q_def by simp
    have r: "r = 0 \<or> r = 1 \<or> r = 2 \<or> r = 3" unfolding r_def by arith
    note e = nth_concat_rows4 [OF q, of "\<lambda>i. u ! (4 * i)" "\<lambda>i. u ! (4 * i + 1)"
        "\<lambda>i. u ! (4 * i + 2)" "\<lambda>i. u ! (4 * i + 3)"]
    have "?c ! (4 * q + r) = u ! (4 * q + r)"
      using r e by auto
    then show "?c ! j = u ! j" by (simp only: j)
  qed
qed

lemma demo_step:
  assumes len: "length u = 4 * (nb * nseg)" "length params = 3 * (nb * nseg)"
      "length nn = nb * nseg"
    and nb: "1 \<le> nb" "1 \<le> nseg"
    and zero: "spec_na_conds (nb * nseg) u params = replicate (nb * nseg) 0"
      "spec_kd_conds (nb * nseg) u params = replicate (nb * nseg) 0"
      "spec_leak_conds (nb * nseg) params = replicate (nb * nseg) 0"
    and geom: "r \<noteq> 0" "len \<noteq> 0"
    and current: "i_ext = (if 5 \<le> t \<and> t \<le> 5 + i_dur
        then at_set (replicate (nb * nseg) 0) (int nseg - 1) (i_amp / 2 / pi / r / len)
        else replicate (nb * nseg) 0)"
  shows "find_root demo_imported \<lparr>NUM_BRANCHES = int nb, NSEG_PER_BRANCH = int nseg\<rparr> t u params
           i_delay i_amp i_dur dt r len nn 0 levels parents =
     Inr (concat (map (\<lambda>i. [u ! (4 * i) + dt * i_ext ! i, u ! (4 * i + 1), u ! (4 * i + 2),
                           u ! (4 * i + 3)]) [0..<nb * nseg]))"
proof -
  let ?N = "nb * nseg"
  let ?v = "strided u 0 4"
  have lv: "length ?v = ?N" using len(1) by (intro length_strided) simp_all
  have ls: "length (strided u j 4) = ?N" if "j < 4" for j
    using that len(1) by (intro length_strided) simp_all
  have li: "length i_ext = ?N" by (simp add: current)
  have "0 < ?N" using nb by simp
  then have ne: "?v \<noteq> []" using lv by auto
  have solver: "case define_all_tridiags ?v (replicate ?N 0) (replicate ?N 0) (replicate ?N 0)
        i_ext nn (int nseg) (int nb) dt 0 of
      Inl e \<Rightarrow> True
    | Inr (lowers, diags, uppers, solves) \<Rightarrow>
        solve_branched_exact (imp_solve_branched demo_imported) levels parents lowers diags
          uppers solves"
    unfolding zero_conductance_assembly [OF lv len(3) li] sum.case prod.case
    by (rule demo_solver_exact_on_identity) simp_all
  have "find_root demo_imported \<lparr>NUM_BRANCHES = int nb, NSEG_PER_BRANCH = int nseg\<rparr> t u params
           i_delay i_amp i_dur dt r len nn 0 levels parents =
        Inr (concat (map (\<lambda>i. [u ! (4 * i) + dt * i_ext ! i, strided u 1 4 ! i,
                              strided u 2 4 ! i, strided u 3 4 ! i]) [0..<?N]))"
  proof (rule find_root_zero_conductance [OF len li nb(1) _ _ _ zero _ _ _ _ _ _ _ _ _ _ solver])
    show "imp_get_external_input demo_imported ?v t i_delay i_dur i_amp r len (int nseg) =
        Inr i_ext"
      unfolding current using lv
      by (simp add: demo_imported_def get_external_input_returns [OF geom ne])
  qed (simp_all add: demo_imported_def ls)
  moreover have "map (\<lambda>i. [u ! (4 * i) + dt * i_ext ! i, strided u 1 4 ! i, strided u 2 4 ! i,
        strided u 3 4 ! i]) [0..<?N] =
      map (\<lambda>i. [u ! (4 * i) + dt * i_ext ! i, u ! (4 * i + 1), u ! (4 * i + 2), u ! (4 * i + 3)])
        [0..<?N]"
    using nth_strided [of _ 4 u ?N] len(1) by (intro map_cong) simp_all
  ultimately show ?thesis by (simp only:)
qed

lemma demo_step_fixpoint:
  assumes len: "length u = 4 * (nb * nseg)" "length params = 3 * (nb * nseg)"
      "length nn = nb * nseg"
    and nb: "1 \<le> nb" "1 \<le> nseg"
    and zero: "spec_na_conds (nb * nseg) u params = replicate (nb * nseg) 0"
      "spec_kd_conds (nb * nseg) u params = replicate (nb * nseg) 0"
      "spec_leak_conds (nb * nseg) params = replicate (nb * nseg) 0"
    and geom: "r \<noteq> 0" "len \<noteq> 0"
  shows "find_root demo_imported \<lparr>NUM_BRANCHES = int nb, NSEG_PER_BRANCH = int nseg\<rparr> t u params
           i_delay 0 i_dur dt r len nn 0 levels parents = Inr u"
proof -
  let ?N = "nb * nseg"
  have i: "(if 5 \<le> t \<and> t \<le> 5 + i_dur
        then at_set (replicate ?N 0) (int nseg - 1) (0 / 2 / pi / r / len)
        else replicate ?N 0) = replicate ?N 0"
    by (simp add: at_set_zero_on_zeros)
  have rows: "map (\<lambda>i. [u ! (4 * i) + dt * replicate ?N 0 ! i, u ! (4 * i + 1), u ! (4 * i + 2),
        u ! (4 * i + 3)]) [0..<?N] =
      map (\<lambda>i. [u ! (4 * i), u ! (4 * i + 1), u ! (4 * i + 2), u ! (4 * i + 3)]) [0..<?N]"
    by (intro map_cong) simp_all
  show ?thesis
    using demo_step [where dt = dt and i_delay = i_delay and levels = levels
        and parents = parents, OF len nb zero geom i [symmetric]]
    by (simp only: rows interleave_rows [OF len(1)])
qed


text \<open>C8 on the stand-in cell: four compartments, at a time inside the stimulus
  window, with amplitude zero.\<close>

theorem zero_conductance_step_keeps_voltages_witness:
  "\<exists>u'. find_root demo_imported \<lparr>NUM_BRANCHES = 2, NSEG_PER_BRANCH = 2\<rparr> 6 demo_u demo_params
          5 0 10 (1 / 40) 1 1 [2, 1, 1, 2] 0 [[0], [1]] [- 1, 0] = Inr u' \<and>
        length u' = 16 \<and> u' ! 0 = - 65 \<and> u' ! 4 = - 70 \<and> u' ! 8 = - 60 \<and> u' ! 12 = - 55"
proof -
  let ?g = "\<lparr>NUM_BRANCHES = 2, NSEG_PER_BRANCH = 2\<rparr>"
  let ?v = "strided demo_u 0 4"
  have len: "length demo_u = 4 * (2 * 2)" "length demo_params = 3 * (2 * 2)"
    "length [2, 1, 1, 2 :: real] = 2 * 2"
    by (simp_all add: demo_u_def demo_params_def)
  have ls: "length (strided demo_u j 4) = 2 * 2" if "j < 4" for j
    using that len(1) by (intro length_strided) simp_all
  have lv: "length ?v = 2 * 2" using ls [of 0] by simp
  have nb: "1 \<le> (2::nat)" by simp
  have g: "NUM_BRANCHES ?g = int 2" "NSEG_PER_BRANCH ?g = int 2" by simp_all
  have asm: "imp_define_all_tridiags demo_imported = define_all_tridiags"
    by (simp add: demo_imported_def)
  have zero: "spec_na_conds (2 * 2) demo_u demo_params = replicate (2 * 2) 0"
    "spec_kd_conds (2 * 2) demo_u demo_params = replicate (2 * 2) 0"
    "spec_leak_conds (2 * 2) demo_params = replicate (2 * 2) 0"
    by code_simp+
  have no_current: "imp_get_external_input demo_imported ?v 6 5 10 0 1 1 (int 2) =
      Inr (replicate (2 * 2) 0)"
  proof -
    have "?v \<noteq> []" using lv by auto
    then show ?thesis
      using lv by (simp add: demo_imported_def get_external_input_returns at_set_zero_on_zeros)
  qed
  have m: "imp_m_gate demo_imported ?v = Inr (zeros_like ?v, zeros_like ?v)"
    "imp_solve_gate_implicit demo_imported (strided demo_u 1 4) (1 / 40) (zeros_like ?v)
       (zeros_like ?v) = Inr (strided demo_u 1 4)"
    "length (strided demo_u 1 4) = 2 * 2"
    using ls [of 1] by (simp_all add: demo_imported_def)
  have h: "imp_h_gate demo_imported ?v = Inr (zeros_like ?v, zeros_like ?v)"
    "imp_solve_gate_implicit demo_imported (strided demo_u 2 4) (1 / 40) (zeros_like ?v)
       (zeros_like ?v) = Inr (strided demo_u 2 4)"
    "length (strided demo_u 2 4) = 2 * 2"
    using ls [of 2] by (simp_all add: demo_imported_def)
  have n: "imp_n_gate demo_imported ?v = Inr (zeros_like ?v, zeros_like ?v)"
    "imp_solve_gate_implicit demo_imported (strided demo_u 3 4) (1 / 40) (zeros_like ?v)
       (zeros_like ?v) = Inr (strided demo_u 3 4)"
    "length (strided demo_u 3 4) = 2 * 2"
    using ls [of 3] by (simp_all add: demo_imported_def)
  have solver: "case define_all_tridiags ?v (replicate (2 * 2) 0) (replicate (2 * 2) 0)
        (replicate (2 * 2) 0) (replicate (2 * 2) 0) [2, 1, 1, 2] (int 2) (int 2) (1 / 40) 0 of
      Inl e \<Rightarrow> True
    | Inr (lowers, diags, uppers, solves) \<Rightarrow>
        solve_branched_exact (imp_solve_branched demo_imported) [[0], [1]] [- 1, 0] lowers diags
          uppers solves"
    unfolding identity_assembly [OF lv len(3)] sum.case prod.case
    by (rule demo_solver_exact_on_identity) simp_all
  obtain u' where u': "find_root demo_imported ?g 6 demo_u demo_params 5 0 10 (1 / 40) 1 1
        [2, 1, 1, 2] 0 [[0], [1]] [- 1, 0] = Inr u'"
      "length u' = length demo_u" "\<forall>k < 2 * 2. u' ! (4 * k) = demo_u ! (4 * k)"
    using zero_conductance_step_keeps_voltages [OF len nb g asm zero no_current m h n solver]
    by blast
  have "u' ! 0 = - 65" "u' ! 4 = - 70" "u' ! 8 = - 60" "u' ! 12 = - 55"
    using u'(3) [rule_format, of 0] u'(3) [rule_format, of 1] u'(3) [rule_format, of 2]
      u'(3) [rule_format, of 3]
    by (simp_all add: demo_u_def)
  moreover have "length u' = 16" using u'(2) by (simp add: demo_u_def)
  ultimately show ?thesis using u'(1) by blast
qed

section \<open>Properties of the run\<close>

lemma body_fun_loop_state:
  "body_fun imp g i (loop_state_of cell stimulus dt params s saveat) =
     and_then (step imp g cell stimulus dt params s) (\<lambda>s'.
     and_then (index0 (snd s')) (\<lambda>v0.
     and_then (at_index_set saveat i v0) (\<lambda>saveat'.
       Inr (loop_state_of cell stimulus dt params s' saveat'))))"
  by (cases s)
     (simp add: loop_state_of_def step_def and_then_def Let_def split: sum.splits)

lemma last_component_loop_state [simp]:
  "last_component (loop_state_of cell stimulus dt params s saveat) = saveat"
  by (simp add: loop_state_of_def)

lemma carry_shape_loop_state [simp]:
  "carry_shape (loop_state_of cell stimulus dt params s saveat) =
     (length (snd s), length params, length (cell_num_neighbours cell),
      map length (cell_branches_in_each_level cell), length (cell_parents cell),
      length saveat)"
  by (simp add: loop_state_of_def)

lemma fori_loop_done: "fori_loop shape lower lower body init_val = Inr init_val"
  by (subst fori_loop.simps) simp

lemma fori_loop_next:
  "fori_loop shape (int lo) (int (lo + Suc n)) body init_val =
     and_then (body (int lo) init_val) (\<lambda>val.
       if shape val = shape init_val
       then fori_loop shape (int (Suc lo)) (int (Suc lo + n)) body val
       else Inl TypeError)"
  by (subst fori_loop.simps) (simp add: and_then_def add.commute split: sum.splits)

lemma fori_loop_run:
  assumes "state_after imp g cell stimulus dt params u lo = Inr s"
    and "length (snd s) = length u"
    and "length saveat = M" and "lo + n \<le> M"
  shows "if (\<forall>k. lo < k \<and> k \<le> lo + n \<longrightarrow> step_ok imp g cell stimulus dt params u k)
     then (\<exists>s'. state_after imp g cell stimulus dt params u (lo + n) = Inr s' \<and>
            fori_loop carry_shape (int lo) (int (lo + n)) (body_fun imp g)
              (loop_state_of cell stimulus dt params s saveat) =
            Inr (loop_state_of cell stimulus dt params s'
                  (map (\<lambda>i. if lo \<le> i \<and> i < lo + n
                           then recorded imp g cell stimulus dt params u (Suc i)
                           else saveat ! i) [0..<M])))
     else (\<exists>e. fori_loop carry_shape (int lo) (int (lo + n)) (body_fun imp g)
              (loop_state_of cell stimulus dt params s saveat) = Inl e)"
  using assms
proof (induction n arbitrary: lo s saveat)
  case 0
  have "(\<lambda>i. if lo \<le> i \<and> i < lo + 0
             then recorded imp g cell stimulus dt params u (Suc i) else saveat ! i) =
      (\<lambda>i. saveat ! i)"
    by auto
  moreover have "map (\<lambda>i. saveat ! i) [0..<M] = saveat"
    using map_nth [of saveat] 0(3) by simp
  ultimately show ?case using 0(1) by (simp add: fori_loop_done)
next
  case (Suc n)
  let ?ok = "step_ok imp g cell stimulus dt params u"
  let ?rec = "recorded imp g cell stimulus dt params u"
  let ?L = "fori_loop carry_shape (int lo) (int (lo + Suc n)) (body_fun imp g)
      (loop_state_of cell stimulus dt params s saveat)"
  have nxt: "state_after imp g cell stimulus dt params u (Suc lo) =
      step imp g cell stimulus dt params s"
    using Suc.prems(1) by simp
  have range: "lo < Suc lo \<and> Suc lo \<le> lo + Suc n" by simp
  show ?case
  proof (cases "step imp g cell stimulus dt params s")
    case (Inl e)
    then have "\<not> ?ok (Suc lo)" unfolding step_ok_def nxt by simp
    then have no: "\<not> (\<forall>k. lo < k \<and> k \<le> lo + Suc n \<longrightarrow> ?ok k)" using range by blast
    have "?L = Inl e" unfolding fori_loop_next body_fun_loop_state Inl by simp
    then show ?thesis using no by (simp only: if_False) blast
  next
    case (Inr s1)
    show ?thesis
    proof (cases "snd s1")
      case Nil
      then have "\<not> ?ok (Suc lo)" unfolding step_ok_def nxt Inr by (cases s1) simp
      then have no: "\<not> (\<forall>k. lo < k \<and> k \<le> lo + Suc n \<longrightarrow> ?ok k)" using range by blast
      have "?L = Inl IndexError"
        unfolding fori_loop_next body_fun_loop_state Inr by (simp add: Nil index0_def)
      then show ?thesis using no by (simp only: if_False) blast
    next
      case (Cons v0 rest)
      have lo: "lo < M" using Suc.prems(4) by simp
      then have ne: "saveat \<noteq> []" using Suc.prems(3) by auto
      have set: "at_index_set saveat (int lo) v0 = Inr (saveat[lo := v0])"
        using lo Suc.prems(3) by (simp add: at_index_set_nonempty [OF ne] at_set_nat)
      have body: "body_fun imp g (int lo) (loop_state_of cell stimulus dt params s saveat) =
          Inr (loop_state_of cell stimulus dt params s1 (saveat[lo := v0]))"
        unfolding body_fun_loop_state Inr by (simp add: Cons index0_def set)
      show ?thesis
      proof (cases "length (snd s1) = length u")
        case False
        then have "\<not> ?ok (Suc lo)" unfolding step_ok_def nxt Inr by (cases s1) simp
        then have no: "\<not> (\<forall>k. lo < k \<and> k \<le> lo + Suc n \<longrightarrow> ?ok k)" using range by blast
        have "?L = Inl TypeError"
          unfolding fori_loop_next body using False Suc.prems(2) by simp
        then show ?thesis using no by (simp only: if_False) blast
      next
        case True
        have ok1: "?ok (Suc lo)"
          unfolding step_ok_def nxt Inr using Cons True by (cases s1) simp
        have rec1: "?rec (Suc lo) = v0"
          unfolding recorded_def nxt Inr using Cons by (cases s1) simp
        have idx: "Suc lo + n = lo + Suc n" by simp
        have L: "?L = fori_loop carry_shape (int (Suc lo)) (int (lo + Suc n)) (body_fun imp g)
            (loop_state_of cell stimulus dt params s1 (saveat[lo := v0]))"
          unfolding fori_loop_next body using True Suc.prems(2) by simp
        have st1: "state_after imp g cell stimulus dt params u (Suc lo) = Inr s1"
          using nxt Inr by simp
        have len1: "length (saveat[lo := v0]) = M" using Suc.prems(3) by simp
        have le1: "Suc lo + n \<le> M" using Suc.prems(4) by simp
        note IH = Suc.IH [OF st1 True len1 le1, unfolded idx]
        have all: "(\<forall>k. lo < k \<and> k \<le> lo + Suc n \<longrightarrow> ?ok k) \<longleftrightarrow>
            (\<forall>k. Suc lo < k \<and> k \<le> lo + Suc n \<longrightarrow> ?ok k)"
        proof
          assume a: "\<forall>k. lo < k \<and> k \<le> lo + Suc n \<longrightarrow> ?ok k"
          show "\<forall>k. Suc lo < k \<and> k \<le> lo + Suc n \<longrightarrow> ?ok k"
            using a by simp
        next
          assume a: "\<forall>k. Suc lo < k \<and> k \<le> lo + Suc n \<longrightarrow> ?ok k"
          show "\<forall>k. lo < k \<and> k \<le> lo + Suc n \<longrightarrow> ?ok k"
          proof (intro allI impI)
            fix k assume k: "lo < k \<and> k \<le> lo + Suc n"
            show "?ok k"
            proof (cases "k = Suc lo")
              case True
              then show ?thesis using ok1 by simp
            next
              case False
              then have "Suc lo < k \<and> k \<le> lo + Suc n" using k by simp
              then show ?thesis using a by blast
            qed
          qed
        qed
        have buf: "map (\<lambda>i. if Suc lo \<le> i \<and> i < lo + Suc n then ?rec (Suc i)
                            else saveat[lo := v0] ! i) [0..<M] =
            map (\<lambda>i. if lo \<le> i \<and> i < lo + Suc n then ?rec (Suc i) else saveat ! i) [0..<M]"
        proof (rule map_cong [OF refl])
          fix i assume "i \<in> set [0..<M]"
          then have i: "i < length saveat" using Suc.prems(3) by simp
          show "(if Suc lo \<le> i \<and> i < lo + Suc n then ?rec (Suc i) else saveat[lo := v0] ! i) =
              (if lo \<le> i \<and> i < lo + Suc n then ?rec (Suc i) else saveat ! i)"
          proof (cases "i = lo")
            case True
            then show ?thesis using i rec1 by simp
          next
            case False
            then show ?thesis using i by auto
          qed
        qed
        show ?thesis
          unfolding all L using IH unfolding buf .
      qed
    qed
  qed
qed

lemma solve_result:
  "fst (solve imp p cell dt u params stimulus) =
     and_then (fori_loop carry_shape 0 1000 (body_fun imp (sizes_in_use p cell u params))
                 (loop_state_of cell stimulus dt params (0, u) (replicate 1000 0)))
       (\<lambda>final_state. Inr (last_component final_state))"
  by (simp add: solve_def sizes_in_use_def jnp_zeros_def Let_def loop_state_of_def
      globals_overwritten and_then_def split: option.splits sum.splits)


lemma solve_trace:
  "if (\<forall>k. 0 < k \<and> k \<le> 1000 \<longrightarrow>
          step_ok imp (sizes_in_use p cell u params) cell stimulus dt params u k)
   then fst (solve imp p cell dt u params stimulus) =
          Inr (map (\<lambda>i. recorded imp (sizes_in_use p cell u params) cell stimulus dt params u
                          (Suc i)) [0..<1000])
   else (\<exists>e. fst (solve imp p cell dt u params stimulus) = Inl e)"
proof -
  let ?g = "sizes_in_use p cell u params"
  have buf: "map (\<lambda>i. if 0 \<le> i \<and> i < 0 + 1000
                      then recorded imp ?g cell stimulus dt params u (Suc i)
                      else replicate 1000 0 ! i) [0..<1000] =
      map (\<lambda>i. recorded imp ?g cell stimulus dt params u (Suc i)) [0..<1000]"
    by (rule map_cong) simp_all
  have st: "state_after imp ?g cell stimulus dt params u 0 = Inr (0, u)" by simp
  have lu: "length (snd (0::real, u)) = length u" by simp
  have len: "length (replicate 1000 (0::real)) = 1000" by simp
  have le: "0 + 1000 \<le> (1000::nat)" by simp
  note run = fori_loop_run [OF st lu len le, unfolded buf]
  have bounds: "int 0 = 0" "int (0 + 1000) = 1000" by simp_all
  show ?thesis
  proof (cases "\<forall>k. 0 < k \<and> k \<le> 1000 \<longrightarrow> step_ok imp ?g cell stimulus dt params u k")
    case True
    then have c: "\<forall>k. 0 < k \<and> k \<le> 0 + 1000 \<longrightarrow> step_ok imp ?g cell stimulus dt params u k"
      by simp
    obtain s' where "fori_loop carry_shape (int 0) (int (0 + 1000)) (body_fun imp ?g)
        (loop_state_of cell stimulus dt params (0, u) (replicate 1000 0)) =
        Inr (loop_state_of cell stimulus dt params s'
              (map (\<lambda>i. recorded imp ?g cell stimulus dt params u (Suc i)) [0..<1000]))"
      using run unfolding if_P [OF c] by blast
    then show ?thesis
      using True unfolding bounds solve_result by simp
  next
    case False
    then have c: "\<not> (\<forall>k. 0 < k \<and> k \<le> 0 + 1000 \<longrightarrow>
        step_ok imp ?g cell stimulus dt params u k)"
      by simp
    obtain e where "fori_loop carry_shape (int 0) (int (0 + 1000)) (body_fun imp ?g)
        (loop_state_of cell stimulus dt params (0, u) (replicate 1000 0)) = Inl e"
      using run unfolding if_not_P [OF c] by blast
    then show ?thesis
      using False unfolding bounds solve_result by simp
  qed
qed


lemma zero_params_conductances:
  "spec_na_conds N u (replicate (3 * N) 0) = replicate N 0"
  "spec_kd_conds N u (replicate (3 * N) 0) = replicate N 0"
  "spec_leak_conds N (replicate (3 * N) 0) = replicate N 0"
  by (rule nth_equalityI; simp add: spec_na_conds_def spec_kd_conds_def spec_leak_conds_def)+

lemma demo_params_zero: "demo_params = replicate (3 * (nb * nseg)) 0" if "nb * nseg = 4"
  by (simp add: that demo_params_def eval_nat_numeral)

lemma bump_single:
  fixes u :: vec
  assumes "length u = 4 * N" "j < N"
  shows "concat (map (\<lambda>i. [u ! (4 * i) + dt * (replicate N 0)[j := c] ! i, u ! (4 * i + 1),
                         u ! (4 * i + 2), u ! (4 * i + 3)]) [0..<N]) =
         u[4 * j := u ! (4 * j) + dt * c]"
proof -
  let ?f = "\<lambda>i. u ! (4 * i) + dt * (replicate N 0)[j := c] ! i"
  let ?c = "concat (map (\<lambda>i. [?f i, u ! (4 * i + 1), u ! (4 * i + 2), u ! (4 * i + 3)]) [0..<N])"
  have lc: "length ?c = 4 * N" by (rule length_concat_rows4)
  show "?c = u[4 * j := u ! (4 * j) + dt * c]"
  proof (rule nth_equalityI)
    show "length ?c = length (u[4 * j := u ! (4 * j) + dt * c])" using lc assms by simp
  next
    fix m assume "m < length ?c"
    then have mN: "m < 4 * N" using lc by simp
    define q where "q = m div 4"
    define r where "r = m mod 4"
    have m: "m = 4 * q + r" unfolding q_def r_def by simp
    have q: "q < N" using mN unfolding q_def by simp
    have r: "r = 0 \<or> r = 1 \<or> r = 2 \<or> r = 3" unfolding r_def by arith
    note e = nth_concat_rows4 [OF q, of ?f "\<lambda>i. u ! (4 * i + 1)"
        "\<lambda>i. u ! (4 * i + 2)" "\<lambda>i. u ! (4 * i + 3)"]
    have fq: "?f q = (if q = j then u ! (4 * j) + dt * c else u ! (4 * q))"
      using q assms(2) by (simp add: nth_list_update)
    have in_u: "4 * q + r < length u" using mN m assms(1) by simp
    have "?c ! (4 * q + r) = u[4 * j := u ! (4 * j) + dt * c] ! (4 * q + r)"
    proof (cases "r = 0")
      case True
      then show ?thesis using e fq in_u by (simp add: nth_list_update)
    next
      case False
      then have "4 * q + r \<noteq> 4 * j" using r by arith
      then show ?thesis using e r False in_u by (auto simp: nth_list_update)
    qed
    then show "?c ! m = u[4 * j := u ! (4 * j) + dt * c] ! m" by (simp only: m)
  qed
qed

lemma demo_find_root:
  assumes sizes: "nb * nseg = 4" "1 \<le> nb" "1 \<le> nseg" and len: "length u = 16"
  shows "find_root demo_imported \<lparr>NUM_BRANCHES = int nb, NSEG_PER_BRANCH = int nseg\<rparr> t u
           demo_params i_delay i_amp i_dur dt 1 1 [2, 1, 1, 2] 0 levels parents =
     Inr (if 5 \<le> t \<and> t \<le> 5 + i_dur
          then u[4 * (nseg - 1) := u ! (4 * (nseg - 1)) + dt * (i_amp / 2 / pi)]
          else u)"
proof -
  let ?I = "if 5 \<le> t \<and> t \<le> 5 + i_dur
      then at_set (replicate (nb * nseg) 0) (int nseg - 1) (i_amp / 2 / pi / 1 / 1)
      else replicate (nb * nseg) 0"
  have lu: "length u = 4 * (nb * nseg)" using sizes(1) len by simp
  have lp: "length demo_params = 3 * (nb * nseg)" using sizes(1) by (simp add: demo_params_def)
  have ln: "length [2, 1, 1, 2 :: real] = nb * nseg" using sizes(1) by simp
  have zero: "spec_na_conds (nb * nseg) u demo_params = replicate (nb * nseg) 0"
    "spec_kd_conds (nb * nseg) u demo_params = replicate (nb * nseg) 0"
    "spec_leak_conds (nb * nseg) demo_params = replicate (nb * nseg) 0"
    unfolding demo_params_zero [OF sizes(1)] by (rule zero_params_conductances)+
  have geom: "(1::real) \<noteq> 0" "(1::real) \<noteq> 0" by simp_all
  note step = demo_step [where dt = dt and i_delay = i_delay and levels = levels
      and parents = parents and i_amp = i_amp and i_dur = i_dur and t = t,
      OF lu lp ln sizes(2,3) zero geom refl]
  have j: "nseg - 1 < nb * nseg" using sizes by (cases nb) auto
  have idx: "int nseg - 1 = int (nseg - 1)" using sizes(3) by simp
  have upd: "at_set (replicate (nb * nseg) 0) (int nseg - 1) (i_amp / 2 / pi / 1 / 1) =
      (replicate (nb * nseg) 0)[nseg - 1 := i_amp / 2 / pi]"
    unfolding idx using j by (simp add: at_set_nat)
  show ?thesis
  proof (cases "5 \<le> t \<and> t \<le> 5 + i_dur")
    case True
    show ?thesis
      using step unfolding if_P [OF True] upd bump_single [OF lu j] .
  next
    case False
    have rows: "map (\<lambda>i. [u ! (4 * i) + dt * replicate (nb * nseg) 0 ! i, u ! (4 * i + 1),
          u ! (4 * i + 2), u ! (4 * i + 3)]) [0..<nb * nseg] =
        map (\<lambda>i. [u ! (4 * i), u ! (4 * i + 1), u ! (4 * i + 2), u ! (4 * i + 3)]) [0..<nb * nseg]"
      by (intro map_cong) simp_all
    show ?thesis
      using step unfolding if_not_P [OF False] rows interleave_rows [OF lu] .
  qed
qed


lemma demo_step_state:
  assumes cell: "cell_radius cell = 1" "cell_length_single_compartment cell = 1"
      "cell_num_neighbours cell = [2, 1, 1, 2]" "cell_coupling_conds cell = 0"
    and sizes: "nb * nseg = 4" "1 \<le> nb" "1 \<le> nseg" and len: "length u = 16"
  shows "step demo_imported \<lparr>NUM_BRANCHES = int nb, NSEG_PER_BRANCH = int nseg\<rparr> cell stimulus
           dt demo_params (t, u) =
     Inr (t + dt,
          if 5 \<le> t \<and> t \<le> 5 + stim_i_dur stimulus
          then u[4 * (nseg - 1) := u ! (4 * (nseg - 1)) + dt * (stim_i_amp stimulus / 2 / pi)]
          else u)"
  unfolding step_def prod.case cell demo_find_root [OF sizes len] and_then_Inr ..

lemma demo_state_quiet:
  assumes cell: "cell_radius cell = 1" "cell_length_single_compartment cell = 1"
      "cell_num_neighbours cell = [2, 1, 1, 2]" "cell_coupling_conds cell = 0"
    and sizes: "nb * nseg = 4" "1 \<le> nb" "1 \<le> nseg"
  shows "state_after demo_imported \<lparr>NUM_BRANCHES = int nb, NSEG_PER_BRANCH = int nseg\<rparr> cell
           demo_stimulus dt demo_params demo_u k = Inr (real k * dt, demo_u)"
proof (induction k)
  case 0
  show ?case by simp
next
  case (Suc k)
  have len: "length demo_u = 16" by (simp add: demo_u_def)
  have same: "demo_u[j := demo_u ! j + dt * (stim_i_amp demo_stimulus / 2 / pi)] = demo_u" for j
    by (simp add: demo_stimulus_def)
  have t: "real k * dt + dt = real (Suc k) * dt" by (simp add: algebra_simps)
  show ?case
    unfolding state_after.simps Suc.IH and_then_Inr demo_step_state [OF cell sizes len] same t
    by simp
qed



lemma demo_trace_quiet:
  assumes cell: "cell_radius cell = 1" "cell_length_single_compartment cell = 1"
      "cell_num_neighbours cell = [2, 1, 1, 2]" "cell_coupling_conds cell = 0"
    and sizes: "nb * nseg = 4" "1 \<le> nb" "1 \<le> nseg"
    and g: "sizes_in_use p cell demo_u demo_params =
        \<lparr>NUM_BRANCHES = int nb, NSEG_PER_BRANCH = int nseg\<rparr>"
  shows "(\<forall>k. step_ok demo_imported (sizes_in_use p cell demo_u demo_params) cell demo_stimulus
            dt demo_params demo_u k) \<and>
     map (\<lambda>i. recorded demo_imported (sizes_in_use p cell demo_u demo_params) cell demo_stimulus
                 dt demo_params demo_u (Suc i)) [0..<1000] = replicate 1000 (- 65)"
proof -
  have ne: "demo_u \<noteq> []" by (simp add: demo_u_def)
  have ok: "step_ok demo_imported (sizes_in_use p cell demo_u demo_params) cell demo_stimulus
      dt demo_params demo_u k" for k
    unfolding g step_ok_def demo_state_quiet [OF cell sizes] using ne by simp
  have r: "recorded demo_imported (sizes_in_use p cell demo_u demo_params) cell demo_stimulus
      dt demo_params demo_u k = - 65" for k
    unfolding g recorded_def demo_state_quiet [OF cell sizes] by (simp add: demo_u_def)
  have "map (\<lambda>i. - 65) [0..<1000] = replicate 1000 (- 65 :: real)"
    by (rule nth_equalityI) simp_all
  then show ?thesis using ok unfolding r by blast
qed


lemma sizes_in_use_fresh:
  "sizes_in_use fresh_process cell u params =
     \<lparr>NUM_BRANCHES = cell_num_branches cell, NSEG_PER_BRANCH = cell_nseg_per_branch cell\<rparr>"
  by (simp add: sizes_in_use_def fresh_process_def)

lemma demo_cell_fields:
  "cell_radius demo_cell = 1" "cell_length_single_compartment demo_cell = 1"
  "cell_num_neighbours demo_cell = [2, 1, 1, 2]" "cell_coupling_conds demo_cell = 0"
  "cell_radius demo_cell_four = 1" "cell_length_single_compartment demo_cell_four = 1"
  "cell_num_neighbours demo_cell_four = [2, 1, 1, 2]" "cell_coupling_conds demo_cell_four = 0"
  by (simp_all add: demo_cell_def demo_cell_four_def)

text \<open>
  C4, as amended. \<open>solve\<close> returns the recording buffer and nothing else, and the buffer
  is the trace of the run, whenever each of the 1000 steps returns a state vector of the
  length of \<open>u\<close> that is not empty: the result has exactly 1000 entries, and entry \<open>i\<close>
  is the voltage of compartment 0 after step \<open>i + 1\<close>, the steps being run with the sizes
  in use (those of \<open>cell\<close> when the process holds no trace for the shapes of the call).
  When a step raises, or leaves a state vector that is empty or of another length,
  \<open>solve\<close> raises and returns nothing.
\<close>

theorem solve_returns_recorded_trace:
  "if (\<forall>k \<in> {1..1000}.
         step_ok imp (sizes_in_use p cell u params) cell stimulus dt params u k)
   then (\<exists>trace. fst (solve imp p cell dt u params stimulus) = Inr trace \<and>
           length trace = 1000 \<and>
           (\<forall>i < 1000. trace ! i =
              recorded imp (sizes_in_use p cell u params) cell stimulus dt params u (Suc i)))
   else (\<exists>e. fst (solve imp p cell dt u params stimulus) = Inl e)"
proof -
  let ?g = "sizes_in_use p cell u params"
  have c: "(\<forall>k \<in> {1..1000}. step_ok imp ?g cell stimulus dt params u k) \<longleftrightarrow>
      (\<forall>k. 0 < k \<and> k \<le> 1000 \<longrightarrow> step_ok imp ?g cell stimulus dt params u k)"
    by (auto simp: Suc_le_eq)
  show ?thesis
  proof (cases "\<forall>k. 0 < k \<and> k \<le> 1000 \<longrightarrow> step_ok imp ?g cell stimulus dt params u k")
    case True
    have "fst (solve imp p cell dt u params stimulus) =
        Inr (map (\<lambda>i. recorded imp ?g cell stimulus dt params u (Suc i)) [0..<1000])"
      using solve_trace [of imp p cell u params stimulus dt] unfolding if_P [OF True] .
    then show ?thesis unfolding c if_P [OF True] by simp
  next
    case False
    have "\<exists>e. fst (solve imp p cell dt u params stimulus) = Inl e"
      using solve_trace [of imp p cell u params stimulus dt] unfolding if_not_P [OF False] .
    then show ?thesis unfolding c if_not_P [OF False] .
  qed
qed

text \<open>
  The amended C4 on the stand-in cell, with a stimulus of amplitude zero: every step
  leaves the state where it is, and the trace is 1000 times the initial voltage of
  compartment 0.
\<close>

theorem solve_returns_recorded_trace_witness:
  "fst (solve demo_imported fresh_process demo_cell (1 / 40) demo_u demo_params demo_stimulus) =
     Inr (replicate 1000 (- 65))"
proof -
  let ?g = "sizes_in_use fresh_process demo_cell demo_u demo_params"
  have g: "?g = \<lparr>NUM_BRANCHES = int 2, NSEG_PER_BRANCH = int 2\<rparr>"
    by (simp add: sizes_in_use_fresh demo_cell_def)
  have sizes: "2 * 2 = (4::nat)" "1 \<le> (2::nat)" "1 \<le> (2::nat)" by simp_all
  note run = demo_trace_quiet [OF demo_cell_fields(1-4) sizes g, of "1 / 40"]
  have ok: "\<forall>k \<in> {1..1000}. step_ok demo_imported ?g demo_cell demo_stimulus (1 / 40)
      demo_params demo_u k"
    using run by blast
  obtain trace where trace:
    "fst (solve demo_imported fresh_process demo_cell (1 / 40) demo_u demo_params
       demo_stimulus) = Inr trace"
    "length trace = 1000"
    "\<forall>i < 1000. trace ! i =
       recorded demo_imported ?g demo_cell demo_stimulus (1 / 40) demo_params demo_u (Suc i)"
    using solve_returns_recorded_trace [of demo_imported fresh_process demo_cell demo_u
        demo_params demo_stimulus "1 / 40"]
    unfolding if_P [OF ok] by blast
  have "trace = map (\<lambda>i. recorded demo_imported ?g demo_cell demo_stimulus (1 / 40)
      demo_params demo_u (Suc i)) [0..<1000]"
    using trace(2,3) by (intro nth_equalityI) simp_all
  then have "trace = replicate 1000 (- 65)" using run by simp
  then show ?thesis using trace(1) by simp
qed

text \<open>
  C4 as stated fails: on an empty state vector the first step raises (the stimulus
  indexes an array of size 0), and \<open>solve\<close> returns no trace.
\<close>

theorem solve_empty_state_counterexample:
  "fst (solve demo_imported fresh_process demo_cell (1 / 40) [] [] demo_stimulus) =
     Inl IndexError"
proof -
  let ?g = "sizes_in_use fresh_process demo_cell [] []"
  have "find_root demo_imported ?g 0 [] [] (stim_i_delay demo_stimulus)
      (stim_i_amp demo_stimulus) (stim_i_dur demo_stimulus) (1 / 40) (cell_radius demo_cell)
      (cell_length_single_compartment demo_cell) (cell_num_neighbours demo_cell)
      (cell_coupling_conds demo_cell) (cell_branches_in_each_level demo_cell)
      (cell_parents demo_cell) = Inl IndexError"
    by (simp add: find_root_def demo_imported_def demo_cell_def strided_def vmul_def vpow_def
        broadcast2_def zeros_like_def Let_def get_external_input_raises)
  then have "step demo_imported ?g demo_cell demo_stimulus (1 / 40) [] (0, []) = Inl IndexError"
    by (simp add: step_def)
  then have "body_fun demo_imported ?g (int 0)
      (loop_state_of demo_cell demo_stimulus (1 / 40) [] (0, []) (replicate 1000 0)) =
      Inl IndexError"
    unfolding body_fun_loop_state by simp
  then have "fori_loop carry_shape (int 0) (int (0 + Suc 999)) (body_fun demo_imported ?g)
      (loop_state_of demo_cell demo_stimulus (1 / 40) [] (0, []) (replicate 1000 0)) =
      Inl IndexError"
    unfolding fori_loop_next by simp
  then show ?thesis unfolding solve_result by simp
qed

section \<open>Properties of successive calls\<close>




end
